theory Spec2Isabelle
  imports Complex_Main "HOL-Library.AList" "HOL-Library.Log_Nat"
begin

section \<open>Python values used by the converter\<close>

text \<open>
  The exceptions the scripts can raise. A function of the source that may raise returns
  \<open>py_error + 'a\<close>, with \<open>Inl\<close> the exception.
\<close>

datatype py_error =
    StopIteration | TypeError | ValueError | IndexError | KeyError | AssertionError
  | ZeroDivisionError | OverflowError | UnboundLocalError | FileNotFoundError

text \<open>
  Python's own numeric conversions are not code of the repository, so they are parameters
  of the model: \<open>float_of\<close> is \<^verbatim>\<open>float(token)\<close> and \<open>int_of\<close> is \<^verbatim>\<open>int(token)\<close>
  (\<open>None\<close> where Python raises ValueError), \<open>fsub\<close> is the subtraction of two floats and
  \<open>int_of_float\<close> is \<^verbatim>\<open>int(x)\<close> on a float (which raises on nan and on infinities).
  The type \<open>'f\<close> stands for Python's float.
\<close>

record 'f pynum =
  float_of :: "string \<Rightarrow> 'f option"
  int_of :: "string \<Rightarrow> int option"
  fsub :: "'f \<Rightarrow> 'f \<Rightarrow> 'f"
  int_of_float :: "'f \<Rightarrow> py_error + int"

text \<open>
  A dict is an association list in insertion order; \<open>AList.update\<close> overwrites the value
  of a key where it stands and appends a new key at the end, as assignment to a Python
  dict does. A text file is the list of its lines, and the file system maps a path to a file.
\<close>

type_synonym ('k, 'v) dict = "('k \<times> 'v) list"

type_synonym filesys = "string \<Rightarrow> string list option"

definition open_read :: "filesys \<Rightarrow> string \<Rightarrow> py_error + string list" where
  "open_read fs filename = (case fs filename of None \<Rightarrow> Inl FileNotFoundError | Some ls \<Rightarrow> Inr ls)"

subsection \<open>Strings\<close>

text \<open>
  \<^verbatim>\<open>str.split()\<close> without argument cuts at runs of whitespace and yields no empty token.
  Characters are bytes here; the whitespace of the ASCII range is what the model knows.
\<close>

definition is_space :: "char \<Rightarrow> bool" where
  "is_space c \<longleftrightarrow> c \<in> set [CHR 0x09, CHR 0x0A, CHR 0x0B, CHR 0x0C, CHR 0x0D,
                            CHR 0x1C, CHR 0x1D, CHR 0x1E, CHR 0x1F, CHR 0x20]"

fun split_acc :: "string \<Rightarrow> string \<Rightarrow> string list" where
  "split_acc cur [] = (if cur = [] then [] else [cur])"
| "split_acc cur (c # cs) =
     (if is_space c then (if cur = [] then split_acc [] cs else cur # split_acc [] cs)
      else split_acc (cur @ [c]) cs)"

definition split :: "string \<Rightarrow> string list" where
  "split s = split_acc [] s"

text \<open>\<^verbatim>\<open>sub in line\<close> on strings.\<close>

fun prefix_of :: "string \<Rightarrow> string \<Rightarrow> bool" where
  "prefix_of [] s = True"
| "prefix_of (a # as) [] = False"
| "prefix_of (a # as) (c # cs) = (a = c \<and> prefix_of as cs)"

fun contains :: "string \<Rightarrow> string \<Rightarrow> bool" where
  "contains sub [] = (sub = [])"
| "contains sub (c # cs) = (prefix_of sub (c # cs) \<or> contains sub cs)"

section \<open>utils.py: read_cell_or_energy_data\<close>

definition cell_columns :: "string list" where
  "cell_columns = [''Step'', ''Time [fs]'', ''Ax [Angstrom]'', ''Ay [Angstrom]'', ''Az [Angstrom]'',
     ''Bx [Angstrom]'', ''By [Angstrom]'', ''Bz [Angstrom]'', ''Cx [Angstrom]'', ''Cy [Angstrom]'',
     ''Cz [Angstrom]'', ''Volume [Angstrom^3]'']"

definition energy_columns :: "string list" where
  "energy_columns = [''Step Nr.'', ''Time[fs]'', ''Kin.[a.u.]'', ''Temp[K]'', ''Pot.[a.u.]'',
     ''Cons Qty[a.u.]'', ''UsedTime[s]'']"

text \<open>Lines 26-32: the default schema; an unknown type leaves \<open>columns\<close> at None.\<close>

definition set_columns :: "string list option \<Rightarrow> string \<Rightarrow> string list option" where
  "set_columns columns ty =
     (case columns of
        Some cs \<Rightarrow> Some cs
      | None \<Rightarrow> (if ty = ''cell'' then Some cell_columns
                 else if ty = ''energy'' then Some energy_columns
                 else None))"

text \<open>
  Lines 52-60, the body of the loop over the tokens of one row: the key of the column is
  created when absent, then the token is converted and appended; a token that does not
  convert is skipped alone. Line 51 runs this body over the tokens, in order.
\<close>

definition add_value :: "'f pynum \<Rightarrow> string \<Rightarrow> string \<Rightarrow> (string, 'f list) dict
    \<Rightarrow> (string, 'f list) dict" where
  "add_value P col v data =
     (let data1 = (case map_of data col of None \<Rightarrow> AList.update col [] data | Some _ \<Rightarrow> data)
      in case float_of P v of
           None \<Rightarrow> data1
         | Some x \<Rightarrow>
             AList.update col ((case map_of data1 col of None \<Rightarrow> [] | Some xs \<Rightarrow> xs) @ [x]) data1)"

fun add_values :: "'f pynum \<Rightarrow> (string \<times> string) list \<Rightarrow> (string, 'f list) dict
    \<Rightarrow> (string, 'f list) dict" where
  "add_values P [] data = data"
| "add_values P ((col, v) # rest) data = add_values P rest (add_value P col v data)"

text \<open>
  Lines 42-48, the loop over the rows. \<^verbatim>\<open>len(columns)\<close> raises TypeError when
  \<open>columns\<close> is None.
\<close>

fun read_rows :: "'f pynum \<Rightarrow> string list option \<Rightarrow> string list \<Rightarrow> (string, 'f list) dict
    \<Rightarrow> py_error + (string, 'f list) dict" where
  "read_rows P columns [] data = Inr data"
| "read_rows P None (row # rest) data = Inl TypeError"
| "read_rows P (Some cs) (row # rest) data =
     (let values = split row
      in if length values \<noteq> length cs then read_rows P (Some cs) rest data
         else read_rows P (Some cs) rest (add_values P (zip cs values) data))"

text \<open>
  Lines 63-75, the diagnostic. The names \<open>step\<close> and \<open>time\<close> are bound only for the two
  known types. The message is printed from \<^verbatim>\<open>data[time][-1]\<close>, \<^verbatim>\<open>data[time][0]\<close>,
  \<^verbatim>\<open>int(data[step][-1] - data[step][0])\<close> and \<^verbatim>\<open>data[time][1]\<close>, evaluated in this order.
\<close>

definition step_time_names :: "string \<Rightarrow> (string \<times> string) option" where
  "step_time_names ty =
     (if ty = ''cell'' then Some (''Step'', ''Time [fs]'')
      else if ty = ''energy'' then Some (''Step Nr.'', ''Time[fs]'')
      else None)"

definition diagnostic :: "'f pynum \<Rightarrow> string \<Rightarrow> (string, 'f list) dict \<Rightarrow> py_error + unit" where
  "diagnostic P ty data =
     (case step_time_names ty of
        None \<Rightarrow> Inl UnboundLocalError
      | Some (step, time) \<Rightarrow>
          (case map_of data time of
             None \<Rightarrow> Inr ()
           | Some ts \<Rightarrow>
               if ts = [] then Inl IndexError
               else (case map_of data step of
                       None \<Rightarrow> Inl KeyError
                     | Some ss \<Rightarrow>
                         if ss = [] then Inl IndexError
                         else (case int_of_float P (fsub P (last ss) (hd ss)) of
                                 Inl e \<Rightarrow> Inl e
                               | Inr _ \<Rightarrow> if length ts < 2 then Inl IndexError else Inr ()))))"

text \<open>
  The whole function. \<^verbatim>\<open>next(file)\<close> raises StopIteration on a file without a line.
  The arguments \<open>nsteps\<close>, \<open>STDPRINT\<close> and \<open>TIMESTEP\<close> are only printed.
\<close>

definition read_cell_or_energy_data ::
  "'f pynum \<Rightarrow> filesys \<Rightarrow> string \<Rightarrow> string list option \<Rightarrow> string
     \<Rightarrow> py_error + (string, 'f list) dict" where
  "read_cell_or_energy_data P fs filename columns ty =
     (case open_read fs filename of
        Inl e \<Rightarrow> Inl e
      | Inr [] \<Rightarrow> Inl StopIteration
      | Inr (header # rows) \<Rightarrow>
          (case read_rows P (set_columns columns ty) rows [] of
             Inl e \<Rightarrow> Inl e
           | Inr data \<Rightarrow>
               (case diagnostic P ty data of
                  Inl e \<Rightarrow> Inl e
                | Inr _ \<Rightarrow> Inr data)))"

section \<open>utils.py: read_forces_data and read_position_data\<close>

text \<open>
  A two-dimensional numpy array is its number of columns and the list of its rows (an
  array without rows still has a number of columns).
\<close>

record 'f ndarray =
  ncols :: nat
  arows :: "'f list list"

text \<open>
  \<^verbatim>\<open>int(nsteps / STDPRINT)\<close> on two integers. The division raises on a zero divisor;
  otherwise its result is the double nearest to the quotient (ties to the even mantissa),
  and OverflowError when that is beyond the range of doubles; \<^verbatim>\<open>int\<close> then cuts
  towards zero. A finite double is held as the rational it denotes. \<open>float_ulp x\<close> is the
  distance between neighbouring doubles at the magnitude \<open>x > 0\<close>: \<open>2 ^ (e - 52)\<close> where
  \<open>2 ^ e \<le> x < 2 ^ (e + 1)\<close>, with \<open>e\<close> not below \<open>- 1022\<close>.
\<close>

definition round_half_even :: "rat \<Rightarrow> int" where
  "round_half_even y =
     (let f = \<lfloor>y\<rfloor>; r = y - of_int f
      in if r < 1 / 2 then f else if 1 / 2 < r then f + 1 else if even f then f else f + 1)"

definition float_ulp :: "rat \<Rightarrow> rat" where
  "float_ulp x =
     (if 1 \<le> x then 2 ^ nat (bitlen \<lfloor>x\<rfloor> - 1) / 2 ^ 52
      else 1 / 2 ^ (min (nat (bitlen (\<lceil>1 / x\<rceil> - 1))) 1022 + 52))"

definition float_round :: "rat \<Rightarrow> py_error + rat" where
  "float_round x =
     (if x = 0 then Inr 0
      else (let u = float_ulp \<bar>x\<bar>; r = of_int (round_half_even (\<bar>x\<bar> / u)) * u
            in if 1024 < bitlen \<lfloor>r\<rfloor> then Inl OverflowError else Inr (sgn x * r)))"

definition py_int :: "rat \<Rightarrow> int" where
  "py_int r = (if 0 \<le> r then \<lfloor>r\<rfloor> else \<lceil>r\<rceil>)"

definition int_truediv :: "int \<Rightarrow> int \<Rightarrow> py_error + int" where
  "int_truediv a b =
     (if b = 0 then Inl ZeroDivisionError
      else (case float_round (of_int a / of_int b) of Inl e \<Rightarrow> Inl e | Inr r \<Rightarrow> Inr (py_int r)))"

text \<open>
  The last loop of both parsers, \<^verbatim>\<open>data[i] = np.array(frame).flatten()\<close>: the flattened
  frame must have the length of the row (or length one, which numpy broadcasts).
\<close>

fun fill_rows :: "nat \<Rightarrow> 'f list list list \<Rightarrow> py_error + 'f list list" where
  "fill_rows n [] = Inr []"
| "fill_rows n (frame # rest) =
     (let flat = concat frame
      in if length flat = n \<or> length flat = 1 then
           (case fill_rows n rest of
              Inl e \<Rightarrow> Inl e
            | Inr rs \<Rightarrow> Inr ((if length flat = n then flat else replicate n (hd flat)) # rs))
         else Inl ValueError)"

subsection \<open>read_forces_data\<close>

record 'f forces_state =
  kind_to_element :: "(int, string) dict"
  arrangement :: "(int \<times> string) list"
  frames :: "'f list list list"
  current_frames :: "'f list list"
  header_found :: bool

definition forces_init :: "'f forces_state" where
  "forces_init = \<lparr> kind_to_element = [], arrangement = [], frames = [], current_frames = [],
                   header_found = False \<rparr>"

definition is_forces_header :: "string \<Rightarrow> bool" where
  "is_forces_header line \<longleftrightarrow>
     contains ''Atom'' line \<and> contains ''Kind'' line \<and> contains ''Element'' line"

text \<open>Lines 113-130, the body of the loop over the lines.\<close>

definition forces_line :: "'f pynum \<Rightarrow> string \<Rightarrow> 'f forces_state \<Rightarrow> py_error + 'f forces_state" where
  "forces_line P line s =
     (if is_forces_header line then
        Inr (if current_frames s \<noteq> []
             then s\<lparr>header_found := True, frames := frames s @ [current_frames s],
                    current_frames := []\<rparr>
             else s\<lparr>header_found := True\<rparr>)
      else if \<not> header_found s \<or> contains ''ATOMIC FORCES'' line then Inr s
      else
        (let parts = split line
         in if length parts < 6 then Inr s
            else
              (case int_of P (parts ! 1) of
                 None \<Rightarrow> Inl ValueError
               | Some kind \<Rightarrow>
                   (case float_of P (parts ! 3) of
                      None \<Rightarrow> Inl ValueError
                    | Some x \<Rightarrow>
                        (case float_of P (parts ! 4) of
                           None \<Rightarrow> Inl ValueError
                         | Some y \<Rightarrow>
                             (case float_of P (parts ! 5) of
                                None \<Rightarrow> Inl ValueError
                              | Some z \<Rightarrow>
                                  Inr (s\<lparr>kind_to_element :=
                                           AList.update kind (parts ! 2) (kind_to_element s),
                                         arrangement := arrangement s @ [(kind, parts ! 2)],
                                         current_frames := current_frames s @ [[x, y, z]]\<rparr>)))))))"

fun forces_loop :: "'f pynum \<Rightarrow> string list \<Rightarrow> 'f forces_state \<Rightarrow> py_error + 'f forces_state" where
  "forces_loop P [] s = Inr s"
| "forces_loop P (line # rest) s =
     (case forces_line P line s of Inl e \<Rightarrow> Inl e | Inr s' \<Rightarrow> forces_loop P rest s')"

text \<open>Lines 132-133: the last frame is appended when it has an atom.\<close>

definition forces_flush :: "'f forces_state \<Rightarrow> 'f list list list" where
  "forces_flush s = (if current_frames s \<noteq> [] then frames s @ [current_frames s] else frames s)"

text \<open>
  Lines 135-149. \<^verbatim>\<open>frames[0]\<close> raises IndexError on an empty list; the first assertion
  compares \<open>num_atoms * 3\<close> with the width the array was created with; the orderings are
  the first \<^verbatim>\<open>int(len(arrangement)/num_frames)\<close> entries of the arrangement.
\<close>

definition forces_result ::
  "'f forces_state \<Rightarrow> int \<Rightarrow> int
     \<Rightarrow> py_error + ((int, string) dict \<times> string list \<times> int list \<times> 'f ndarray)" where
  "forces_result s nsteps STDPRINT =
     (case forces_flush s of
        [] \<Rightarrow> Inl IndexError
      | frame0 # others \<Rightarrow>
          (let num_frames = length (frame0 # others);
               num_atoms = length frame0;
               per_frame = take (length (arrangement s) div num_frames) (arrangement s);
               ordering_number = map fst per_frame;
               ordering_letter = map snd per_frame
           in if num_atoms * 3 \<noteq> num_atoms * 3 then Inl AssertionError
              else
                (case int_truediv nsteps STDPRINT of
                   Inl e \<Rightarrow> Inl e
                 | Inr q \<Rightarrow>
                     if int num_frames \<noteq> q + 1 then Inl AssertionError
                     else
                       (case fill_rows (num_atoms * 3) (frame0 # others) of
                          Inl e \<Rightarrow> Inl e
                        | Inr rs \<Rightarrow>
                            Inr (kind_to_element s, ordering_letter, ordering_number,
                                 \<lparr> ncols = num_atoms * 3, arows = rs \<rparr>)))))"

definition read_forces_data ::
  "'f pynum \<Rightarrow> filesys \<Rightarrow> string \<Rightarrow> int \<Rightarrow> int
     \<Rightarrow> py_error + ((int, string) dict \<times> string list \<times> int list \<times> 'f ndarray)" where
  "read_forces_data P fs filename nsteps STDPRINT =
     (case open_read fs filename of
        Inl e \<Rightarrow> Inl e
      | Inr lines \<Rightarrow>
          (case forces_loop P lines forces_init of
             Inl e \<Rightarrow> Inl e
           | Inr s \<Rightarrow> forces_result s nsteps STDPRINT))"

subsection \<open>read_position_data\<close>

record 'f position_state =
  pframes :: "'f list list list"
  current_frame :: "'f list list"
  frame_started :: bool

definition position_init :: "'f position_state" where
  "position_init = \<lparr> pframes = [], current_frame = [], frame_started = False \<rparr>"

definition is_position_header :: "string \<Rightarrow> bool" where
  "is_position_header line \<longleftrightarrow>
     contains ''i ='' line \<and> contains ''time ='' line \<and> contains ''E ='' line"

text \<open>Lines 173-187, the body of the loop over the lines.\<close>

definition position_line ::
  "'f pynum \<Rightarrow> string \<Rightarrow> 'f position_state \<Rightarrow> py_error + 'f position_state" where
  "position_line P line s =
     (if is_position_header line then
        Inr (if frame_started s \<and> current_frame s \<noteq> []
             then s\<lparr>pframes := pframes s @ [current_frame s], current_frame := [],
                    frame_started := True\<rparr>
             else s\<lparr>frame_started := True\<rparr>)
      else if frame_started s then
        (let parts = split line
         in if length parts \<noteq> 4 then Inr s
            else
              (case float_of P (parts ! 1) of
                 None \<Rightarrow> Inl ValueError
               | Some x \<Rightarrow>
                   (case float_of P (parts ! 2) of
                      None \<Rightarrow> Inl ValueError
                    | Some y \<Rightarrow>
                        (case float_of P (parts ! 3) of
                           None \<Rightarrow> Inl ValueError
                         | Some z \<Rightarrow>
                             Inr (s\<lparr>current_frame := current_frame s @ [[x, y, z]]\<rparr>)))))
      else Inr s)"

fun position_loop ::
  "'f pynum \<Rightarrow> string list \<Rightarrow> 'f position_state \<Rightarrow> py_error + 'f position_state" where
  "position_loop P [] s = Inr s"
| "position_loop P (line # rest) s =
     (case position_line P line s of Inl e \<Rightarrow> Inl e | Inr s' \<Rightarrow> position_loop P rest s')"

definition position_flush :: "'f position_state \<Rightarrow> 'f list list list" where
  "position_flush s = (if current_frame s \<noteq> [] then pframes s @ [current_frame s] else pframes s)"

text \<open>Lines 192-206; the frame count is compared with \<^verbatim>\<open>int(nsteps / STDPRINT)\<close>.\<close>

definition position_result :: "'f position_state \<Rightarrow> int \<Rightarrow> int \<Rightarrow> py_error + 'f ndarray" where
  "position_result s nsteps STDPRINT =
     (case position_flush s of
        [] \<Rightarrow> Inl IndexError
      | frame0 # others \<Rightarrow>
          (let num_frames = length (frame0 # others);
               num_atoms = length frame0
           in if num_atoms * 3 \<noteq> num_atoms * 3 then Inl AssertionError
              else
                (case int_truediv nsteps STDPRINT of
                   Inl e \<Rightarrow> Inl e
                 | Inr q \<Rightarrow>
                     if int num_frames \<noteq> q then Inl AssertionError
                     else
                       (case fill_rows (num_atoms * 3) (frame0 # others) of
                          Inl e \<Rightarrow> Inl e
                        | Inr rs \<Rightarrow> Inr \<lparr> ncols = num_atoms * 3, arows = rs \<rparr>))))"

definition read_position_data ::
  "'f pynum \<Rightarrow> filesys \<Rightarrow> string \<Rightarrow> int \<Rightarrow> int \<Rightarrow> py_error + 'f ndarray" where
  "read_position_data P fs filename nsteps STDPRINT =
     (case open_read fs filename of
        Inl e \<Rightarrow> Inl e
      | Inr lines \<Rightarrow>
          (case position_loop P lines position_init of
             Inl e \<Rightarrow> Inl e
           | Inr s \<Rightarrow> position_result s nsteps STDPRINT))"

section \<open>multicpk2deepmd.py\<close>

subsection \<open>pandas and numpy operations used by main\<close>

text \<open>
  \<^verbatim>\<open>pd.DataFrame(dict)\<close> raises ValueError when the lists differ in length; the frame keeps
  the columns in the order of the dict. \<^verbatim>\<open>df.iloc[:, 2:-1].to_numpy()\<close> takes the columns
  from the third to the last but one, row by row; \<^verbatim>\<open>df[name]\<close> raises KeyError for an
  absent column.
\<close>

definition pd_DataFrame :: "(string, 'f list) dict \<Rightarrow> py_error + (string, 'f list) dict" where
  "pd_DataFrame d =
     (case d of
        [] \<Rightarrow> Inr []
      | c # cs \<Rightarrow> if list_all (\<lambda>x. length (snd x) = length (snd c)) cs then Inr d
                  else Inl ValueError)"

definition df_nrows :: "(string, 'f list) dict \<Rightarrow> nat" where
  "df_nrows df = (case df of [] \<Rightarrow> 0 | c # cs \<Rightarrow> length (snd c))"

definition iloc_2_to_last :: "(string, 'f list) dict \<Rightarrow> 'f ndarray" where
  "iloc_2_to_last df =
     (let cols = drop 2 (butlast df)
      in \<lparr> ncols = length cols,
           arows = map (\<lambda>i. map (\<lambda>c. snd c ! i) cols) [0..<df_nrows df] \<rparr>)"

definition df_column :: "(string, 'f list) dict \<Rightarrow> string \<Rightarrow> py_error + 'f list" where
  "df_column df name = (case map_of df name of None \<Rightarrow> Inl KeyError | Some xs \<Rightarrow> Inr xs)"

text \<open>
  \<^verbatim>\<open>np.concatenate(arrays, axis=0)\<close> raises ValueError on an empty list and, for
  two-dimensional arrays, when the numbers of columns differ.
\<close>

definition np_concatenate :: "'f ndarray list \<Rightarrow> py_error + 'f ndarray" where
  "np_concatenate arrays =
     (case arrays of
        [] \<Rightarrow> Inl ValueError
      | a # rest \<Rightarrow>
          if list_all (\<lambda>b. ncols b = ncols a) rest
          then Inr \<lparr> ncols = ncols a, arows = concat (map arows arrays) \<rparr>
          else Inl ValueError)"

definition np_concatenate1 :: "'f list list \<Rightarrow> py_error + 'f list" where
  "np_concatenate1 arrays = (case arrays of [] \<Rightarrow> Inl ValueError | a # rest \<Rightarrow> Inr (concat arrays))"

text \<open>\<^verbatim>\<open>xs[lo:hi]\<close> along the first axis, with Python's treatment of negative and large bounds.\<close>

definition slice_bound :: "nat \<Rightarrow> int \<Rightarrow> nat" where
  "slice_bound n i = (if i < 0 then nat (int n + i) else min (nat i) n)"

definition py_slice :: "int \<Rightarrow> int \<Rightarrow> 'a list \<Rightarrow> 'a list" where
  "py_slice lo hi xs =
     (let a = slice_bound (length xs) lo; b = slice_bound (length xs) hi
      in take (b - a) (drop a xs))"

text \<open>\<^verbatim>\<open>str(n)\<close> for an integer and the format \<^verbatim>\<open>{i:0>3}\<close>.\<close>

definition digit_char :: "nat \<Rightarrow> char" where
  "digit_char d = char_of (48 + d)"

function str_nat :: "nat \<Rightarrow> string" where
  "str_nat n = (if n < 10 then [digit_char n] else str_nat (n div 10) @ [digit_char (n mod 10)])"
  by pat_completeness auto
termination
  by (relation "measure id") auto

declare str_nat.simps [simp del]

definition str_int :: "int \<Rightarrow> string" where
  "str_int i = (if i < 0 then CHR ''-'' # str_nat (nat (- i)) else str_nat (nat i))"

definition pad3 :: "nat \<Rightarrow> string" where
  "pad3 i = replicate (3 - length (str_nat i)) CHR ''0'' @ str_nat i"

subsection \<open>The arguments and the files written\<close>

text \<open>
  The parsed command line. \<open>TIMESTEP\<close> is left out: it only appears in a printed message.
  What main writes is a store from path to content; \<open>Npy\<close> is a two-dimensional array
  file, \<open>Npy1\<close> a one-dimensional one, \<open>Text\<close> a text file. Directories are not modelled.
  \<^verbatim>\<open>astype(np.float32)\<close> is a parameter \<open>f32\<close> of the functions that write chunks.
\<close>

record args =
  FILES :: "string list"
  PATH :: "string option"
  SAVE_PATH :: "string option"
  NSTEPS :: "int list"
  STDPRINT :: int
  ZERO_DATA :: bool
  SPLIT :: bool
  SPLIT_COUNT :: int

datatype 'f content = Npy "'f ndarray" | Npy1 "'f list" | Text string

type_synonym 'f store = "(string, 'f content) dict"

definition np_save :: "string \<Rightarrow> 'f content \<Rightarrow> 'f store \<Rightarrow> 'f store" where
  "np_save path c out = AList.update path c out"

subsection \<open>The loop over the input groups (lines 53-72)\<close>

record 'f group =
  g_cell :: "'f ndarray"
  g_energy :: "'f list"
  g_coord :: "'f ndarray"
  g_force :: "'f ndarray"
  g_kind_to_element :: "(int, string) dict"
  g_ordering_letter :: "string list"
  g_ordering_number :: "int list"

text \<open>
  One pass of the loop for the file stem \<open>file\<close> and its step count. With \<open>ZERO_DATA\<close> set,
  line 62 adds the integer 1 to the list \<open>args.NSTEPS\<close>, which raises TypeError.
\<close>

definition load_group :: "'f pynum \<Rightarrow> filesys \<Rightarrow> args \<Rightarrow> string \<Rightarrow> int \<Rightarrow> py_error + 'f group" where
  "load_group P fs A file nsteps =
     (case read_cell_or_energy_data P fs (file @ ''-Cell.cell'') None ''cell'' of
        Inl e \<Rightarrow> Inl e
      | Inr cell_dict \<Rightarrow>
     (case pd_DataFrame cell_dict of
        Inl e \<Rightarrow> Inl e
      | Inr cell \<Rightarrow>
     (case read_cell_or_energy_data P fs (file @ ''-Energy.en'') None ''energy'' of
        Inl e \<Rightarrow> Inl e
      | Inr energy_dict \<Rightarrow>
     (case pd_DataFrame energy_dict of
        Inl e \<Rightarrow> Inl e
      | Inr energy \<Rightarrow>
     if ZERO_DATA A then Inl TypeError
     else
     (case read_position_data P fs (file @ ''-Trajectory.xyz'') nsteps (STDPRINT A) of
        Inl e \<Rightarrow> Inl e
      | Inr coord \<Rightarrow>
     (case read_forces_data P fs (file @ ''-Forces.for'') nsteps (STDPRINT A) of
        Inl e \<Rightarrow> Inl e
      | Inr (k2e, letters, numbers, force) \<Rightarrow>
     (case df_column energy ''Cons Qty[a.u.]'' of
        Inl e \<Rightarrow> Inl e
      | Inr cons \<Rightarrow>
          Inr \<lparr> g_cell = iloc_2_to_last cell, g_energy = cons, g_coord = coord, g_force = force,
                g_kind_to_element = k2e, g_ordering_letter = letters,
                g_ordering_number = numbers \<rparr>)))))))"

fun load_groups :: "'f pynum \<Rightarrow> filesys \<Rightarrow> args \<Rightarrow> (string \<times> int) list \<Rightarrow> py_error + 'f group list" where
  "load_groups P fs A [] = Inr []"
| "load_groups P fs A ((file, nsteps) # rest) =
     (case load_group P fs A file nsteps of
        Inl e \<Rightarrow> Inl e
      | Inr g \<Rightarrow> (case load_groups P fs A rest of Inl e \<Rightarrow> Inl e | Inr gs \<Rightarrow> Inr (g # gs)))"

subsection \<open>Concatenation and the consistency checks (lines 76-83)\<close>

record 'f dataset =
  cell_data :: "'f ndarray"
  energy_data :: "'f list"
  coord_data :: "'f ndarray"
  force_data :: "'f ndarray"

text \<open>Line 79 drops the first row of the force array of every group before concatenating.\<close>

definition drop_first_row :: "'f ndarray \<Rightarrow> 'f ndarray" where
  "drop_first_row a = a\<lparr>arows := drop 1 (arows a)\<rparr>"

definition concatenate_groups ::
  "'f ndarray list \<Rightarrow> 'f list list \<Rightarrow> 'f ndarray list \<Rightarrow> 'f ndarray list \<Rightarrow> py_error + 'f dataset" where
  "concatenate_groups cell_list energy_list coord_list force_list =
     (case np_concatenate cell_list of
        Inl e \<Rightarrow> Inl e
      | Inr cells \<Rightarrow>
     (case np_concatenate1 energy_list of
        Inl e \<Rightarrow> Inl e
      | Inr energies \<Rightarrow>
     (case np_concatenate coord_list of
        Inl e \<Rightarrow> Inl e
      | Inr coords \<Rightarrow>
     (case np_concatenate (map drop_first_row force_list) of
        Inl e \<Rightarrow> Inl e
      | Inr forces \<Rightarrow>
          Inr \<lparr> cell_data = cells, energy_data = energies, coord_data = coords,
                force_data = forces \<rparr>))))"

definition consistency_check :: "'f dataset \<Rightarrow> py_error + unit" where
  "consistency_check d =
     (if \<not> (length (arows (cell_data d)) = length (energy_data d) \<and>
             length (energy_data d) = length (arows (coord_data d)) \<and>
             length (arows (coord_data d)) = length (arows (force_data d)))
      then Inl AssertionError
      else if ncols (coord_data d) \<noteq> ncols (force_data d) then Inl AssertionError
      else Inr ())"

subsection \<open>Writing the files (lines 87-130)\<close>

definition map_array :: "('f \<Rightarrow> 'f) \<Rightarrow> 'f ndarray \<Rightarrow> 'f ndarray" where
  "map_array f a = a\<lparr>arows := map (map f) (arows a)\<rparr>"

definition slice_rows :: "int \<Rightarrow> int \<Rightarrow> 'f ndarray \<Rightarrow> 'f ndarray" where
  "slice_rows lo hi a = a\<lparr>arows := py_slice lo hi (arows a)\<rparr>"

text \<open>Lines 99-112: the body of the loop that writes the subset \<open>i\<close>.\<close>

definition save_set ::
  "('f \<Rightarrow> 'f) \<Rightarrow> string \<Rightarrow> int \<Rightarrow> 'f dataset \<Rightarrow> nat \<Rightarrow> 'f store \<Rightarrow> 'f store" where
  "save_set f32 dir nline_per_set d i out =
     (let lo = int i * nline_per_set; hi = (int i + 1) * nline_per_set;
          set_dir = dir @ ''/set.'' @ pad3 i
      in np_save (set_dir @ ''/force.npy'') (Npy (map_array f32 (slice_rows lo hi (force_data d))))
        (np_save (set_dir @ ''/coord.npy'') (Npy (map_array f32 (slice_rows lo hi (coord_data d))))
        (np_save (set_dir @ ''/energy.npy'') (Npy1 (map f32 (py_slice lo hi (energy_data d))))
        (np_save (set_dir @ ''/box.npy'') (Npy (map_array f32 (slice_rows lo hi (cell_data d)))) out))))"

text \<open>
  Lines 96-121. \<^verbatim>\<open>len(cell_data) // SPLIT_COUNT\<close> raises on a zero count;
  \<^verbatim>\<open>range(SPLIT_COUNT)\<close> is empty for a negative one.
\<close>

definition save_sets ::
  "('f \<Rightarrow> 'f) \<Rightarrow> string \<Rightarrow> bool \<Rightarrow> int \<Rightarrow> 'f dataset \<Rightarrow> 'f store \<Rightarrow> py_error + 'f store" where
  "save_sets f32 dir do_split count d out =
     (if do_split then
        (if count = 0 then Inl ZeroDivisionError
         else
           (let nline_per_set = int (length (arows (cell_data d))) div count
            in Inr (fold (save_set f32 dir nline_per_set d) [0..<nat count] out)))
      else
        Inr (np_save (dir @ ''/set.000/force.npy'') (Npy (force_data d))
            (np_save (dir @ ''/set.000/coord.npy'') (Npy (coord_data d))
            (np_save (dir @ ''/set.000/energy.npy'') (Npy1 (energy_data d))
            (np_save (dir @ ''/set.000/box.npy'') (Npy (cell_data d)) out)))))"

text \<open>Lines 124-130: the two text files, one item and a newline per write.\<close>

definition type_map_raw :: "(int, string) dict \<Rightarrow> string" where
  "type_map_raw k2e = concat (map (\<lambda>item. item @ [CHR 0x0A]) (map snd k2e))"

definition type_raw :: "int list \<Rightarrow> string" where
  "type_raw numbers = concat (map (\<lambda>item. str_int (item - 1) @ [CHR 0x0A]) numbers)"

subsection \<open>main\<close>

text \<open>
  Lines 87-130: the destination, the array files and the two text files.
  \<^verbatim>\<open>os.path.exists(None)\<close> raises TypeError when neither \<open>SAVE_PATH\<close> nor \<open>PATH\<close> is given.
\<close>

definition write_files ::
  "('f \<Rightarrow> 'f) \<Rightarrow> args \<Rightarrow> (int, string) dict \<Rightarrow> int list \<Rightarrow> 'f dataset \<Rightarrow> py_error + 'f store" where
  "write_files f32 A k2e numbers d =
     (case (case SAVE_PATH A of None \<Rightarrow> PATH A | Some sp \<Rightarrow> Some sp) of
        None \<Rightarrow> Inl TypeError
      | Some dir \<Rightarrow>
          (case save_sets f32 dir (SPLIT A) (SPLIT_COUNT A) d [] of
             Inl e \<Rightarrow> Inl e
           | Inr out \<Rightarrow>
               Inr (np_save (dir @ ''/type.raw'') (Text (type_raw numbers))
                   (np_save (dir @ ''/type_map.raw'') (Text (type_map_raw k2e)) out))))"

text \<open>
  The whole of main. The names \<open>kind_to_element\<close> and \<open>ordering_number\<close> used for the text
  files are those bound by the last pass of the loop.
\<close>

definition main :: "'f pynum \<Rightarrow> ('f \<Rightarrow> 'f) \<Rightarrow> filesys \<Rightarrow> args \<Rightarrow> py_error + 'f store" where
  "main P f32 fs A =
     (if length (FILES A) \<noteq> length (NSTEPS A) then Inl AssertionError
      else
        (let files = (case PATH A of None \<Rightarrow> FILES A | Some p \<Rightarrow> map (\<lambda>file. p @ ''/'' @ file) (FILES A))
         in case load_groups P fs A (zip files (NSTEPS A)) of
              Inl e \<Rightarrow> Inl e
            | Inr gs \<Rightarrow>
           (case concatenate_groups (map g_cell gs) (map g_energy gs) (map g_coord gs) (map g_force gs) of
              Inl e \<Rightarrow> Inl e
            | Inr d \<Rightarrow>
           (case consistency_check d of
              Inl e \<Rightarrow> Inl e
            | Inr _ \<Rightarrow>
                write_files f32 A (g_kind_to_element (last gs)) (g_ordering_number (last gs)) d))))"

section \<open>split_train_test.py\<close>

text \<open>
  The part of main between the loading of the four arrays and the writing of the two
  groups (lines 54-81), for one configuration. \<open>TRAIN_SIZE\<close> is a finite double, held as the
  rational it denotes. The permutation that \<^verbatim>\<open>np.random.permutation\<close> draws for the seed is
  a parameter \<open>idx\<close>; indexing an array with it raises IndexError on an index beyond the
  rows.
\<close>

definition take_idx :: "'a list \<Rightarrow> nat list \<Rightarrow> py_error + 'a list" where
  "take_idx xs idx = (if list_all (\<lambda>i. i < length xs) idx then Inr (map (\<lambda>i. xs ! i) idx)
                      else Inl IndexError)"

definition take_rows :: "'f ndarray \<Rightarrow> nat list \<Rightarrow> py_error + 'f ndarray" where
  "take_rows a idx = (case take_idx (arows a) idx of Inl e \<Rightarrow> Inl e | Inr rs \<Rightarrow> Inr (a\<lparr>arows := rs\<rparr>))"

text \<open>Lines 55-61: the four arrays are permuted alike when \<open>SHUFFLE\<close> is set.\<close>

definition shuffle_arrays :: "bool \<Rightarrow> nat list \<Rightarrow> 'f dataset \<Rightarrow> py_error + 'f dataset" where
  "shuffle_arrays do_shuffle idx d =
     (if do_shuffle then
        (case take_rows (cell_data d) idx of
           Inl e \<Rightarrow> Inl e
         | Inr b \<Rightarrow>
        (case take_idx (energy_data d) idx of
           Inl e \<Rightarrow> Inl e
         | Inr en \<Rightarrow>
        (case take_rows (coord_data d) idx of
           Inl e \<Rightarrow> Inl e
         | Inr c \<Rightarrow>
        (case take_rows (force_data d) idx of
           Inl e \<Rightarrow> Inl e
         | Inr f \<Rightarrow> Inr \<lparr> cell_data = b, energy_data = en, coord_data = c, force_data = f \<rparr>))))
      else Inr d)"

text \<open>
  Line 65, \<^verbatim>\<open>int(args.TRAIN_SIZE * nfiles)\<close>: the integer becomes a double, the product is
  rounded to a double, and \<^verbatim>\<open>int\<close> cuts towards zero; a result beyond the doubles ends in
  OverflowError.
\<close>

definition float_mul_int :: "rat \<Rightarrow> int \<Rightarrow> py_error + rat" where
  "float_mul_int x n =
     (case float_round (of_int n) of Inl e \<Rightarrow> Inl e | Inr nf \<Rightarrow> float_round (x * nf))"

definition ntrain_of :: "rat \<Rightarrow> nat \<Rightarrow> py_error + int" where
  "ntrain_of train_size nfiles =
     (case float_mul_int train_size (int nfiles) of Inl e \<Rightarrow> Inl e | Inr p \<Rightarrow> Inr (py_int p))"

text \<open>\<^verbatim>\<open>xs[:n]\<close> and \<^verbatim>\<open>xs[n:]\<close>.\<close>

definition slice_to :: "int \<Rightarrow> 'a list \<Rightarrow> 'a list" where
  "slice_to n xs = take (slice_bound (length xs) n) xs"

definition slice_from :: "int \<Rightarrow> 'a list \<Rightarrow> 'a list" where
  "slice_from n xs = drop (slice_bound (length xs) n) xs"

text \<open>
  Lines 54-81. In the source the arrays are named \<open>box\<close>, \<open>energy\<close>, \<open>coord\<close> and \<open>force\<close>;
  they are the four fields of the dataset here. The two assertions of lines 68-69 are those
  of lines 82-83 of the converter, \<open>consistency_check\<close>; they come after the computation of
  \<open>ntrain\<close>. The result is the train group and the test group.
\<close>

definition split_data ::
  "rat \<Rightarrow> bool \<Rightarrow> nat list \<Rightarrow> 'f dataset \<Rightarrow> py_error + ('f dataset \<times> 'f dataset)" where
  "split_data train_size do_shuffle idx loaded =
     (case shuffle_arrays do_shuffle idx loaded of
        Inl e \<Rightarrow> Inl e
      | Inr d \<Rightarrow>
          (case ntrain_of train_size (length (arows (cell_data d))) of
             Inl e \<Rightarrow> Inl e
           | Inr ntrain \<Rightarrow>
               (case consistency_check d of
                  Inl e \<Rightarrow> Inl e
                | Inr _ \<Rightarrow>
                    Inr (\<lparr> cell_data = (cell_data d)\<lparr>arows := slice_to ntrain (arows (cell_data d))\<rparr>,
                           energy_data = slice_to ntrain (energy_data d),
                           coord_data = (coord_data d)\<lparr>arows := slice_to ntrain (arows (coord_data d))\<rparr>,
                           force_data = (force_data d)\<lparr>arows := slice_to ntrain (arows (force_data d))\<rparr> \<rparr>,
                         \<lparr> cell_data = (cell_data d)\<lparr>arows := slice_from ntrain (arows (cell_data d))\<rparr>,
                           energy_data = slice_from ntrain (energy_data d),
                           coord_data = (coord_data d)\<lparr>arows := slice_from ntrain (arows (coord_data d))\<rparr>,
                           force_data = (force_data d)\<lparr>arows := slice_from ntrain (arows (force_data d))\<rparr> \<rparr>))))"

section \<open>A conversion instance for the examples\<close>

text \<open>
  To evaluate the functions on concrete files, the conversions are instantiated on plain
  decimal literals (an optional sign, digits, and for floats an optional fractional part),
  with exact rational values. Python's \<^verbatim>\<open>float\<close> and \<^verbatim>\<open>int\<close> accept more (exponents,
  \<^verbatim>\<open>inf\<close>, \<^verbatim>\<open>nan\<close>, underscores); no example below uses such a token, and the general
  theorems hold for every conversion.
\<close>

definition digit_of :: "char \<Rightarrow> nat option" where
  "digit_of c = (let n = (of_char c :: nat) in if 48 \<le> n \<and> n \<le> 57 then Some (n - 48) else None)"

fun digits_val :: "nat \<Rightarrow> string \<Rightarrow> nat option" where
  "digits_val acc [] = Some acc"
| "digits_val acc (c # cs) =
     (case digit_of c of None \<Rightarrow> None | Some d \<Rightarrow> digits_val (10 * acc + d) cs)"

definition unsigned_dec :: "string \<Rightarrow> rat option" where
  "unsigned_dec s =
     (let ip = takeWhile (\<lambda>c. c \<noteq> CHR ''.'') s; r = dropWhile (\<lambda>c. c \<noteq> CHR ''.'') s; fp = tl r
      in if ip = [] \<and> fp = [] then None
         else (case (digits_val 0 ip, digits_val 0 fp) of
                 (Some a, Some b) \<Rightarrow> Some (of_nat a + of_nat b / 10 ^ length fp)
               | _ \<Rightarrow> None))"

definition signed :: "(string \<Rightarrow> 'a option) \<Rightarrow> ('a \<Rightarrow> 'a) \<Rightarrow> string \<Rightarrow> 'a option" where
  "signed f neg s =
     (case s of
        [] \<Rightarrow> None
      | c # cs \<Rightarrow> if c = CHR ''-'' then map_option neg (f cs)
                  else if c = CHR ''+'' then f cs else f s)"

definition dec_float :: "string \<Rightarrow> rat option" where
  "dec_float = signed unsigned_dec uminus"

definition dec_int :: "string \<Rightarrow> int option" where
  "dec_int = signed (\<lambda>s. if s = [] then None else map_option int (digits_val 0 s)) uminus"

definition dec_num :: "rat pynum" where
  "dec_num = \<lparr> float_of = dec_float, int_of = dec_int, fsub = (-),
               int_of_float = (\<lambda>x. Inr (if 0 \<le> x then \<lfloor>x\<rfloor> else \<lceil>x\<rceil>)) \<rparr>"

section \<open>Notions used to state the properties of the scalar reader\<close>

text \<open>
  The rows of a file that the reader keeps are those whose token count is the number of
  columns; \<open>column P i rs\<close> collects, over the rows \<open>rs\<close>, the token at position \<open>i\<close> where
  it converts; \<open>series\<close> is the dict these columns form.
\<close>

definition parsed :: "string list \<Rightarrow> string list \<Rightarrow> string list" where
  "parsed cs rows = filter (\<lambda>r. length (split r) = length cs) rows"

definition conv :: "'f pynum \<Rightarrow> string \<Rightarrow> 'f list" where
  "conv P v = (case float_of P v of None \<Rightarrow> [] | Some x \<Rightarrow> [x])"

definition column :: "'f pynum \<Rightarrow> nat \<Rightarrow> string list \<Rightarrow> 'f list" where
  "column P i rs = concat (map (\<lambda>r. conv P (split r ! i)) rs)"

definition series :: "'f pynum \<Rightarrow> string list \<Rightarrow> string list \<Rightarrow> (string, 'f list) dict" where
  "series P cs rs = (if rs = [] then [] else map (\<lambda>i. (cs ! i, column P i rs)) [0..<length cs])"

definition getl :: "(string, 'f list) dict \<Rightarrow> string \<Rightarrow> 'f list" where
  "getl data c = (case map_of data c of None \<Rightarrow> [] | Some xs \<Rightarrow> xs)"

text \<open>
  An energy file of three rows: the second has a token that is no number, the third is
  truncated. A cell file with a single row.
\<close>

definition energy_file :: "string list" where
  "energy_file = [''# Step Nr. Time[fs] Kin.[a.u.] Temp[K] Pot.[a.u.] Cons Qty[a.u.] UsedTime[s]'',
     ''0 0.0 1 300 -17.5 -16.5 0.5'',
     ''1 0.5 1 300 x -16.5 0.5'',
     ''2 1.0 1 300'']"

definition clean_energy_file :: "string list" where
  "clean_energy_file = [''# Step Nr. Time[fs] Kin.[a.u.] Temp[K] Pot.[a.u.] Cons Qty[a.u.] UsedTime[s]'',
     ''0 0.0 1 300 -17.5 -16.5 0.5'',
     ''1 0.5 1 300 -17.25 -16.5 0.5'']"

definition one_row_cell_file :: "string list" where
  "one_row_cell_file = [''# Step Time [fs] Ax Ay Az Bx By Bz Cx Cy Cz Volume'',
     ''0 0.0 10 0 0 0 10 0 0 0 10 1000'']"

definition scalar_fs :: filesys where
  "scalar_fs = map_of [(''bad-Energy.en'', energy_file), (''ok-Energy.en'', clean_energy_file),
     (''one-Cell.cell'', one_row_cell_file)]"

section \<open>Notions used to state the properties of the frame parsers\<close>

text \<open>
  The frame list a parser holds when its loop over the lines has ended and the last frame
  has been appended.
\<close>

definition forces_frames :: "'f pynum \<Rightarrow> string list \<Rightarrow> py_error + 'f list list list" where
  "forces_frames P lines =
     (case forces_loop P lines forces_init of Inl e \<Rightarrow> Inl e | Inr s \<Rightarrow> Inr (forces_flush s))"

definition position_frames :: "'f pynum \<Rightarrow> string list \<Rightarrow> py_error + 'f list list list" where
  "position_frames P lines =
     (case position_loop P lines position_init of
        Inl e \<Rightarrow> Inl e
      | Inr s \<Rightarrow> Inr (position_flush s))"

text \<open>
  A force file seen from outside: lines before the first header, then blocks, each a header
  line followed by its body. In a body, the data lines are those with at least six fields
  that do not hold the banner text; a data line is convertible when its kind and its three
  force components convert.
\<close>

definition is_data :: "string \<Rightarrow> bool" where
  "is_data line \<longleftrightarrow> \<not> contains ''ATOMIC FORCES'' line \<and> 6 \<le> length (split line)"

definition data_lines :: "string list \<Rightarrow> string list" where
  "data_lines body = filter is_data body"

definition convertible :: "'f pynum \<Rightarrow> string \<Rightarrow> bool" where
  "convertible P line \<longleftrightarrow>
     int_of P (split line ! 1) \<noteq> None \<and> float_of P (split line ! 3) \<noteq> None \<and>
     float_of P (split line ! 4) \<noteq> None \<and> float_of P (split line ! 5) \<noteq> None"

definition atom_of :: "'f pynum \<Rightarrow> string \<Rightarrow> 'f list" where
  "atom_of P line = [the (float_of P (split line ! 3)), the (float_of P (split line ! 4)),
                     the (float_of P (split line ! 5))]"

definition kind_of :: "'f pynum \<Rightarrow> string \<Rightarrow> int \<times> string" where
  "kind_of P line = (the (int_of P (split line ! 1)), split line ! 2)"

definition body_ok :: "'f pynum \<Rightarrow> string list \<Rightarrow> bool" where
  "body_ok P body \<longleftrightarrow>
     list_all (\<lambda>l. \<not> is_forces_header l \<and> (\<not> is_data l \<or> convertible P l)) body"

definition block_ok :: "'f pynum \<Rightarrow> nat \<Rightarrow> string \<times> string list \<Rightarrow> bool" where
  "block_ok P A blk \<longleftrightarrow>
     is_forces_header (fst blk) \<and> body_ok P (snd blk) \<and> length (data_lines (snd blk)) = A"

definition block_lines :: "(string \<times> string list) list \<Rightarrow> string list" where
  "block_lines blocks = concat (map (\<lambda>blk. fst blk # snd blk) blocks)"

definition frame_of :: "'f pynum \<Rightarrow> string \<times> string list \<Rightarrow> 'f list list" where
  "frame_of P blk = map (atom_of P) (data_lines (snd blk))"

definition kinds_of :: "'f pynum \<Rightarrow> string \<times> string list \<Rightarrow> (int \<times> string) list" where
  "kinds_of P blk = map (kind_of P) (data_lines (snd blk))"

definition record_kinds :: "(int \<times> string) list \<Rightarrow> (int, string) dict \<Rightarrow> (int, string) dict" where
  "record_kinds ks d = fold (\<lambda>k. AList.update (fst k) (snd k)) ks d"


text \<open>
  A force file of three frames of two atoms (kind 1 is H, kind 2 is O), a trajectory of two
  frames of the same atoms, and a file without any frame header.
\<close>

definition forces_file :: "string list" where
  "forces_file = [
     '' ATOMIC FORCES in [a.u.]'',
     '' # Atom Kind Element X Y Z'',
     '' 1 1 H 0.5 0.25 0.0'',
     '' 2 2 O -0.5 -0.25 0.0'',
     '' SUM OF ATOMIC FORCES 0.0 0.0 0.0 0.0'',
     '' ATOMIC FORCES in [a.u.]'',
     '' # Atom Kind Element X Y Z'',
     '' 1 1 H 1.5 1.25 1.0'',
     '' 2 2 O -1.5 -1.25 -1.0'',
     '' SUM OF ATOMIC FORCES 0.0 0.0 0.0 0.0'',
     '' ATOMIC FORCES in [a.u.]'',
     '' # Atom Kind Element X Y Z'',
     '' 1 1 H 2.5 2.25 2.0'',
     '' 2 2 O -2.5 -2.25 -2.0'',
     '' SUM OF ATOMIC FORCES 0.0 0.0 0.0 0.0'']"

definition forces_blocks :: "(string \<times> string list) list" where
  "forces_blocks = [
     ('' # Atom Kind Element X Y Z'',
      ['' 1 1 H 0.5 0.25 0.0'', '' 2 2 O -0.5 -0.25 0.0'',
       '' SUM OF ATOMIC FORCES 0.0 0.0 0.0 0.0'', '' ATOMIC FORCES in [a.u.]'']),
     ('' # Atom Kind Element X Y Z'',
      ['' 1 1 H 1.5 1.25 1.0'', '' 2 2 O -1.5 -1.25 -1.0'',
       '' SUM OF ATOMIC FORCES 0.0 0.0 0.0 0.0'', '' ATOMIC FORCES in [a.u.]'']),
     ('' # Atom Kind Element X Y Z'',
      ['' 1 1 H 2.5 2.25 2.0'', '' 2 2 O -2.5 -2.25 -2.0'',
       '' SUM OF ATOMIC FORCES 0.0 0.0 0.0 0.0''])]"

definition xyz_file :: "string list" where
  "xyz_file = [
     ''2'',
     '' i = 1, time = 0.5, E = -17.5'',
     ''H 0.0 0.0 0.0'',
     ''O 0.0 0.0 1.0'',
     ''2'',
     '' i = 2, time = 1.0, E = -17.25'',
     ''H 0.0 0.0 0.5'',
     ''O 0.0 0.0 1.5'']"

definition no_frame_file :: "string list" where
  "no_frame_file = [''# no frame here'', ''1 1 H 0.5 0.25 0.0'', ''H 0.0 0.0 0.0'']"

definition frames_fs :: filesys where
  "frames_fs = map_of [(''a-Forces.for'', forces_file), (''a-Trajectory.xyz'', xyz_file),
     (''none.txt'', no_frame_file)]"

section \<open>Notions and examples for the converter\<close>

text \<open>The number of rows of a written array file.\<close>

definition content_rows :: "'f content \<Rightarrow> nat" where
  "content_rows c = (case c of Npy a \<Rightarrow> length (arows a) | Npy1 xs \<Rightarrow> length xs | Text t \<Rightarrow> 0)"

text \<open>
  A group as the loop of main holds it for a declared number of steps: the force array has
  one row more than the other three.
\<close>

definition zero_array :: "nat \<Rightarrow> nat \<Rightarrow> rat ndarray" where
  "zero_array r c = \<lparr> ncols = c, arows = replicate r (replicate c 0) \<rparr>"

definition example_group :: "nat \<Rightarrow> rat group" where
  "example_group steps =
     \<lparr> g_cell = zero_array steps 9, g_energy = replicate steps 0, g_coord = zero_array steps 6,
       g_force = zero_array (steps + 1) 6, g_kind_to_element = [(1, ''H''), (2, ''O'')],
       g_ordering_letter = [''H'', ''O''], g_ordering_number = [1, 2] \<rparr>"

definition small_dataset :: "rat dataset" where
  "small_dataset = \<lparr> cell_data = zero_array 2 9, energy_data = [0, 0], coord_data = zero_array 2 6,
                     force_data = zero_array 2 6 \<rparr>"

text \<open>
  A store in which every array file has zero rows, and the four paths of the subset \<open>i\<close>.
\<close>

definition empty_store :: "'f store \<Rightarrow> bool" where
  "empty_store out \<longleftrightarrow> list_all (\<lambda>pc. content_rows (snd pc) = 0) out"

definition set_paths :: "string \<Rightarrow> nat \<Rightarrow> string list" where
  "set_paths dir i = map (\<lambda>name. dir @ ''/set.'' @ pad3 i @ ''/'' @ name)
     [''box.npy'', ''energy.npy'', ''coord.npy'', ''force.npy'']"

text \<open>
  The file stems main reads from, the directory it writes to, and the groups its loop
  collects.
\<close>

definition main_files :: "args \<Rightarrow> string list" where
  "main_files A = (case PATH A of None \<Rightarrow> FILES A | Some p \<Rightarrow> map (\<lambda>file. p @ ''/'' @ file) (FILES A))"

definition main_dir :: "args \<Rightarrow> string option" where
  "main_dir A = (case SAVE_PATH A of None \<Rightarrow> PATH A | Some sp \<Rightarrow> Some sp)"

definition main_groups :: "'f pynum \<Rightarrow> filesys \<Rightarrow> args \<Rightarrow> py_error + 'f group list" where
  "main_groups P fs A = load_groups P fs A (zip (main_files A) (NSTEPS A))"

text \<open>The lines of a text, each ended by a newline.\<close>

fun lines_acc :: "string \<Rightarrow> string \<Rightarrow> string list" where
  "lines_acc cur [] = (if cur = [] then [] else [cur])"
| "lines_acc cur (c # cs) =
     (if c = CHR 0x0A then cur # lines_acc [] cs else lines_acc (cur @ [c]) cs)"

definition text_lines :: "string \<Rightarrow> string list" where
  "text_lines t = lines_acc [] t"

text \<open>One input group of two steps, and the arguments of a run over it.\<close>

definition cell_file :: "string list" where
  "cell_file = [''# Step Time [fs] Ax Ay Az Bx By Bz Cx Cy Cz Volume'',
     ''0 0.0 10 0 0 0 10 0 0 0 10 1000'',
     ''1 0.5 10 0 0 0 10 0 0 0 10 1000'']"

definition run_fs :: filesys where
  "run_fs = map_of [(''run-Cell.cell'', cell_file), (''run-Energy.en'', clean_energy_file),
     (''run-Trajectory.xyz'', xyz_file), (''run-Forces.for'', forces_file)]"

definition run_args :: args where
  "run_args = \<lparr> FILES = [''run''], PATH = None, SAVE_PATH = Some ''out'', NSTEPS = [2],
                STDPRINT = 1, ZERO_DATA = False, SPLIT = False, SPLIT_COUNT = 10 \<rparr>"

text \<open>No element symbol of the map holds a newline.\<close>

definition no_newline :: "(int, string) dict \<Rightarrow> bool" where
  "no_newline d \<longleftrightarrow> list_all (\<lambda>ke. CHR 0x0A \<notin> set (snd ke)) d"

subsection \<open>Notions for the splitter\<close>

text \<open>
  The row counts of the four arrays of a group, the two groups of a result, and the rows
  before and from a position \<open>k\<close> of a dataset.
\<close>

definition group_rows :: "'f dataset \<Rightarrow> nat list" where
  "group_rows d = [length (arows (cell_data d)), length (energy_data d),
                   length (arows (coord_data d)), length (arows (force_data d))]"

definition split_rows :: "py_error + ('f dataset \<times> 'f dataset) \<Rightarrow> py_error + (nat list \<times> nat list)" where
  "split_rows r = (case r of Inl e \<Rightarrow> Inl e | Inr (tr, te) \<Rightarrow> Inr (group_rows tr, group_rows te))"

definition head_rows :: "nat \<Rightarrow> 'f dataset \<Rightarrow> 'f dataset" where
  "head_rows k d =
     \<lparr> cell_data = (cell_data d)\<lparr>arows := take k (arows (cell_data d))\<rparr>,
       energy_data = take k (energy_data d),
       coord_data = (coord_data d)\<lparr>arows := take k (arows (coord_data d))\<rparr>,
       force_data = (force_data d)\<lparr>arows := take k (arows (force_data d))\<rparr> \<rparr>"

definition tail_rows :: "nat \<Rightarrow> 'f dataset \<Rightarrow> 'f dataset" where
  "tail_rows k d =
     \<lparr> cell_data = (cell_data d)\<lparr>arows := drop k (arows (cell_data d))\<rparr>,
       energy_data = drop k (energy_data d),
       coord_data = (coord_data d)\<lparr>arows := drop k (arows (coord_data d))\<rparr>,
       force_data = (force_data d)\<lparr>arows := drop k (arows (force_data d))\<rparr> \<rparr>"

text \<open>
  A dataset of \<open>n\<close> rows in which row \<open>i\<close> holds the number \<open>i\<close> throughout, and the doubles
  that Python reads from \<^verbatim>\<open>0.7\<close> and \<^verbatim>\<open>0.29\<close>.
\<close>

definition ramp_array :: "nat \<Rightarrow> nat \<Rightarrow> rat ndarray" where
  "ramp_array n c = \<lparr> ncols = c, arows = map (\<lambda>i. replicate c (of_nat i)) [0..<n] \<rparr>"

definition ramp_dataset :: "nat \<Rightarrow> rat dataset" where
  "ramp_dataset n = \<lparr> cell_data = ramp_array n 9, energy_data = map of_nat [0..<n],
                      coord_data = ramp_array n 6, force_data = ramp_array n 6 \<rparr>"

definition double_07 :: rat where
  "double_07 = 3152519739159347 / 4503599627370496"

definition double_029 :: rat where
  "double_029 = 5224175567749775 / 18014398509481984"

section \<open>The rounded division\<close>

lemma rhe_ge: "of_int m \<le> y \<Longrightarrow> m \<le> round_half_even y"
proof -
  assume "of_int m \<le> y"
  then have "m \<le> \<lfloor>y\<rfloor>" by (simp add: le_floor_iff)
  then show ?thesis by (simp add: round_half_even_def Let_def)
qed

lemma rhe_le: "y \<le> of_int m \<Longrightarrow> round_half_even y \<le> m"
proof -
  assume a: "y \<le> of_int m"
  have f: "\<lfloor>y\<rfloor> \<le> m" using a by (simp add: floor_le_iff)
  have "\<lfloor>y\<rfloor> + 1 \<le> m" if "1 / 2 \<le> y - of_int \<lfloor>y\<rfloor>"
  proof -
    have "(of_int \<lfloor>y\<rfloor> :: rat) < of_int m" using that a by linarith
    then show ?thesis by simp
  qed
  then show ?thesis using f by (auto simp: round_half_even_def Let_def)
qed



lemma pow2_quotient: "e \<le> n \<Longrightarrow> (2::rat) ^ e / 2 ^ n = 1 / 2 ^ (n - e)"
  by (simp add: power_diff)

lemma float_ulp_pow2:
  assumes "0 < x" and "x < 2 ^ 53"
  shows "\<exists>k. float_ulp x = 1 / 2 ^ k"
proof (cases "1 \<le> x")
  case True
  then have p: "0 < \<lfloor>x\<rfloor>" by simp
  have "(of_int \<lfloor>x\<rfloor> :: rat) < 2 ^ 53" using assms(2) by (meson floor_less_iff less_le_trans of_int_floor_le order.strict_trans1)
  then have "\<lfloor>x\<rfloor> < 2 ^ 53" by (metis of_int_less_iff of_int_numeral of_int_power)
  then have "bitlen \<lfloor>x\<rfloor> \<le> 53" by (simp add: bitlen_le_iff_power)
  then have e: "nat (bitlen \<lfloor>x\<rfloor> - 1) \<le> 52" by simp
  have "float_ulp x = 2 ^ nat (bitlen \<lfloor>x\<rfloor> - 1) / 2 ^ 52"
    using True by (simp add: float_ulp_def)
  then have "float_ulp x = 1 / 2 ^ (52 - nat (bitlen \<lfloor>x\<rfloor> - 1))"
    by (simp only: pow2_quotient[OF e])
  then show ?thesis by blast
next
  case False
  then show ?thesis by (auto simp: float_ulp_def)
qed


lemma float_round_pos:
  assumes "0 < x"
  shows "float_round x =
     (if 1024 < bitlen \<lfloor>of_int (round_half_even (x / float_ulp x)) * float_ulp x\<rfloor>
      then Inl OverflowError
      else Inr (of_int (round_half_even (x / float_ulp x)) * float_ulp x))"
  using assms by (simp add: float_round_def Let_def)

lemma float_round_bracket:
  assumes x: "0 < x" "x < 2 ^ 53" and lo: "of_int lo \<le> x" and hi: "x \<le> of_int hi"
    and h53: "hi \<le> 2 ^ 53"
  shows "\<exists>r. float_round x = Inr r \<and> of_int lo \<le> r \<and> r \<le> of_int hi"
proof -
  from float_ulp_pow2[OF x] obtain k where u: "float_ulp x = 1 / 2 ^ k" by blast
  define p :: rat where "p = 2 ^ k"
  have p: "0 < p" by (simp add: p_def)
  define q where "q = round_half_even (x * p)"
  define r where "r = of_int q / p"
  have "of_int (lo * 2 ^ k) \<le> x * p" using lo p by (simp add: p_def mult_right_mono)
  then have "lo * 2 ^ k \<le> q" unfolding q_def by (rule rhe_ge)
  then have "(of_int (lo * 2 ^ k) :: rat) \<le> of_int q" by (simp only: of_int_le_iff)
  then have "of_int lo * p \<le> of_int q" by (simp add: p_def)
  then have l: "of_int lo \<le> r" using p by (simp add: r_def pos_le_divide_eq)
  have "x * p \<le> of_int (hi * 2 ^ k)" using hi p by (simp add: p_def mult_right_mono)
  then have "q \<le> hi * 2 ^ k" unfolding q_def by (rule rhe_le)
  then have "(of_int q :: rat) \<le> of_int (hi * 2 ^ k)" by (simp only: of_int_le_iff)
  then have "of_int q \<le> of_int hi * p" by (simp add: p_def)
  then have h: "r \<le> of_int hi" using p by (simp add: r_def pos_divide_le_eq)
  have "\<lfloor>r\<rfloor> \<le> hi" using h by (simp add: floor_le_iff)
  moreover have "(2::int) ^ 53 < 2 ^ 54" by simp
  ultimately have "\<lfloor>r\<rfloor> < 2 ^ 54" using h53 by linarith
  then have "bitlen \<lfloor>r\<rfloor> \<le> 54" by (simp add: bitlen_le_iff_power)
  then have nb: "\<not> 1024 < bitlen \<lfloor>r\<rfloor>" by simp
  have r': "of_int (round_half_even (x / float_ulp x)) * float_ulp x = r"
    by (simp add: u r_def q_def p_def)
  have "float_round x = Inr r" using nb by (simp only: float_round_pos[OF x(1)] r' if_False)
  then show ?thesis using l h by blast
qed



text \<open>Above \<open>2 ^ 53\<close> the rounding shows: the quotient below is under 2 and becomes 2.\<close>

lemma int_truediv_rounds: "int_truediv 19999999999999999 10000000000000000 = Inr 2"
  by code_simp

section \<open>Properties of read_cell_or_energy_data\<close>

subsection \<open>What one row adds to the dict\<close>

lemma add_values_map_of:
  "distinct (map fst kvs) \<Longrightarrow>
   map_of (add_values P kvs data) c =
     (case map_of kvs c of None \<Rightarrow> map_of data c | Some v \<Rightarrow> Some (getl data c @ conv P v))"
proof (induction kvs arbitrary: data c)
  case Nil
  then show ?case by simp
next
  case (Cons kv kvs)
  obtain k v where kv: "kv = (k, v)" by (cases kv)
  from Cons.prems kv have d: "distinct (map fst kvs)" and nk: "map_of kvs k = None"
    by (auto simp: map_of_eq_None_iff)
  show ?case
    using nk
    by (auto simp: kv Let_def add_value_def Cons.IH[OF d] getl_def conv_def update_conv'
             split: option.splits)
qed

lemma add_values_keys_new:
  "distinct (map fst kvs) \<Longrightarrow> set (map fst kvs) \<inter> set (map fst data) = {} \<Longrightarrow>
   map fst (add_values P kvs data) = map fst data @ map fst kvs"
proof (induction kvs arbitrary: data)
  case Nil
  then show ?case by simp
next
  case (Cons kv kvs)
  obtain k v where kv: "kv = (k, v)" by (cases kv)
  from Cons.prems kv have d: "distinct (map fst kvs)" and nk: "k \<notin> set (map fst kvs)"
    and nd: "map_of data k = None" and dj: "set (map fst kvs) \<inter> set (map fst data) = {}"
    by (auto simp: map_of_eq_None_iff)
  have nk': "k \<notin> set (map fst data)" using nd by (simp add: map_of_eq_None_iff)
  have k1: "map fst (AList.update k xs data) = map fst data @ [k]" for xs
    using nk' by (simp add: update_keys)
  have k2: "map fst (AList.update k ys (AList.update k xs data)) = map fst data @ [k]" for xs ys
    using nk' by (simp add: update_keys)
  have dj1: "set (map fst kvs) \<inter> set (map fst data @ [k]) = {}"
    using dj nk by auto
  have av: "map fst (add_value P k v data) = map fst data @ [k]"
    using nd k1 k2 by (simp add: add_value_def Let_def update_conv' split: option.splits)
  have "set (map fst kvs) \<inter> set (map fst (add_value P k v data)) = {}"
    unfolding av by (rule dj1)
  from Cons.IH[OF d this] show ?case by (simp add: kv av)
qed

lemma add_values_keys_old:
  "set (map fst kvs) \<subseteq> set (map fst data) \<Longrightarrow>
   map fst (add_values P kvs data) = map fst data"
proof (induction kvs arbitrary: data)
  case Nil
  then show ?case by simp
next
  case (Cons kv kvs)
  obtain k v where kv: "kv = (k, v)" by (cases kv)
  from Cons.prems kv have kin: "k \<in> set (map fst data)"
    and sub: "set (map fst kvs) \<subseteq> set (map fst data)"
    by auto
  then obtain xs where xs: "map_of data k = Some xs"
    by (metis map_of_eq_None_iff not_None_eq set_map)
  have k1: "map fst (AList.update k ys data) = map fst data" for ys
    using kin by (simp add: update_keys)
  have av: "map fst (add_value P k v data) = map fst data"
    using xs k1 by (simp add: add_value_def Let_def split: option.splits)
  have "set (map fst kvs) \<subseteq> set (map fst (add_value P k v data))"
    unfolding av by (rule sub)
  from Cons.IH[OF this] show ?case by (simp add: kv av)
qed

subsection \<open>The dict after all rows\<close>

lemma dict_eqI:
  assumes "map fst xs = ks" and "distinct ks" and "length ys = length ks"
    and "\<And>i. i < length ks \<Longrightarrow> ys ! i = (ks ! i, the (map_of xs (ks ! i)))"
  shows "xs = ys"
proof (rule nth_equalityI)
  show "length xs = length ys" using assms(1,3) by (metis length_map)
next
  fix i assume i: "i < length xs"
  then have ik: "i < length ks" using assms(1) by (metis length_map)
  have d: "distinct (map fst xs)" using assms(1,2) by simp
  have "(fst (xs ! i), snd (xs ! i)) \<in> set xs" using i by simp
  then have "map_of xs (fst (xs ! i)) = Some (snd (xs ! i))" using d by simp
  moreover have "fst (xs ! i) = ks ! i" using assms(1) i by (metis nth_map)
  ultimately have "xs ! i = (ks ! i, the (map_of xs (ks ! i)))"
    by (metis option.sel prod.collapse)
  then show "xs ! i = ys ! i" using assms(4)[OF ik] by simp
qed

lemma series_keys: "rs \<noteq> [] \<Longrightarrow> map fst (series P cs rs) = cs"
  by (simp add: series_def comp_def map_nth)

lemma series_map_of:
  assumes d: "distinct cs" and r: "rs \<noteq> []" and i: "i < length cs"
  shows "map_of (series P cs rs) (cs ! i) = Some (column P i rs)"
proof -
  have "(cs ! i, column P i rs) \<in> set (series P cs rs)"
    using i r by (auto simp: series_def)
  moreover have "distinct (map fst (series P cs rs))" using d r by (simp add: series_keys)
  ultimately show ?thesis by simp
qed

lemma add_values_series:
  assumes d: "distinct cs" and l: "length (split r) = length cs"
  shows "add_values P (zip cs (split r)) (series P cs rs) = series P cs (rs @ [r])"
proof (rule dict_eqI[where ks = cs])
  show "distinct cs" by (rule d)
  show "length (series P cs (rs @ [r])) = length cs" by (simp add: series_def)
  have dz: "distinct (map fst (zip cs (split r)))" using d l by simp
  show keys: "map fst (add_values P (zip cs (split r)) (series P cs rs)) = cs"
  proof (cases "rs = []")
    case True
    then show ?thesis using add_values_keys_new[OF dz, of "[]" P] l by (simp add: series_def)
  next
    case False
    then show ?thesis
      using add_values_keys_old[of "zip cs (split r)" "series P cs rs" P] l
      by (simp add: series_keys)
  qed
  fix i assume i: "i < length cs"
  have z: "map_of (zip cs (split r)) (cs ! i) = Some (split r ! i)"
    using d l i by (simp add: map_of_zip_nth)
  have g: "getl (series P cs rs) (cs ! i) = column P i rs"
  proof (cases "rs = []")
    case True
    then show ?thesis by (simp add: getl_def series_def column_def)
  next
    case False
    then show ?thesis using series_map_of[OF d False i, of P] by (simp add: getl_def)
  qed
  have "map_of (add_values P (zip cs (split r)) (series P cs rs)) (cs ! i)
        = Some (column P i rs @ conv P (split r ! i))"
    by (simp add: add_values_map_of[OF dz] z g)
  then show "series P cs (rs @ [r]) ! i
        = (cs ! i, the (map_of (add_values P (zip cs (split r)) (series P cs rs)) (cs ! i)))"
    using i by (simp add: series_def column_def)
qed

lemma read_rows_series:
  "distinct cs \<Longrightarrow>
   read_rows P (Some cs) rows (series P cs rs) = Inr (series P cs (rs @ parsed cs rows))"
proof (induction rows arbitrary: rs)
  case Nil
  then show ?case by (simp add: parsed_def)
next
  case (Cons r rows)
  show ?case
  proof (cases "length (split r) = length cs")
    case True
    then show ?thesis
      using Cons.IH[OF Cons.prems, of "rs @ [r]"] add_values_series[OF Cons.prems True, of P rs]
      by (simp add: parsed_def)
  next
    case False
    then show ?thesis using Cons.IH[OF Cons.prems, of rs] by (simp add: parsed_def)
  qed
qed

lemma read_rows_from_empty:
  "distinct cs \<Longrightarrow> read_rows P (Some cs) rows [] = Inr (series P cs (parsed cs rows))"
  using read_rows_series[of cs P rows "[]"] by (simp add: series_def)

lemma column_length:
  "length (column P i rs) = length (filter (\<lambda>r. float_of P (split r ! i) \<noteq> None) rs)"
  by (induction rs) (auto simp: column_def conv_def split: option.splits)

lemma column_length_le: "length (column P i rs) \<le> length rs"
  by (simp add: column_length)

lemma column_length_all:
  "\<forall>r\<in>set rs. float_of P (split r ! i) \<noteq> None \<Longrightarrow> length (column P i rs) = length rs"
  by (simp add: column_length)

lemma distinct_cell_columns: "distinct cell_columns"
  by (simp add: cell_columns_def)

lemma distinct_energy_columns: "distinct energy_columns"
  by (simp add: energy_columns_def)

lemma reader_returns_series:
  assumes f: "fs filename = Some (header # rows)"
    and t: "ty = ''cell'' \<and> cs = cell_columns \<or> ty = ''energy'' \<and> cs = energy_columns"
    and r: "read_cell_or_energy_data P fs filename None ty = Inr data"
  shows "data = series P cs (parsed cs rows)"
proof -
  have sc: "set_columns None ty = Some cs" and d: "distinct cs"
    using t by (auto simp: set_columns_def distinct_cell_columns distinct_energy_columns)
  show ?thesis
    using r f
    by (simp add: read_cell_or_energy_data_def open_read_def sc read_rows_from_empty[OF d]
             split: sum.splits)
qed

text \<open>
  Claim C1, as amended. For a cell or energy file that the reader returns a series for:
  the series is empty when no row has the schema's token count, and has the schema's
  columns in order otherwise; the length of each column is the number of kept rows whose
  token in that column converts to a float, hence at most the number of kept rows; and
  when every token of every kept row converts, every column has exactly the number of kept
  rows as its length. (A token that does not convert is skipped alone, so columns of one
  series can differ in length.)
\<close>

theorem scalar_series_column_lengths:
  assumes "fs filename = Some (header # rows)"
    and "ty = ''cell'' \<and> cs = cell_columns \<or> ty = ''energy'' \<and> cs = energy_columns"
    and "read_cell_or_energy_data P fs filename None ty = Inr data"
  shows "(parsed cs rows = [] \<longrightarrow> data = []) \<and>
         (parsed cs rows \<noteq> [] \<longrightarrow> map fst data = cs) \<and>
         (\<forall>i<length data.
            length (snd (data ! i))
              = length (filter (\<lambda>r. float_of P (split r ! i) \<noteq> None) (parsed cs rows)) \<and>
            length (snd (data ! i)) \<le> length (parsed cs rows)) \<and>
         ((\<forall>r\<in>set (parsed cs rows). \<forall>t\<in>set (split r). float_of P t \<noteq> None) \<longrightarrow>
            (\<forall>i<length data. length (snd (data ! i)) = length (parsed cs rows)))"
proof -
  let ?ps = "parsed cs rows"
  have data: "data = series P cs ?ps" by (rule reader_returns_series[OF assms])
  have e: "?ps = [] \<longrightarrow> data = []" by (simp add: data series_def)
  have k: "?ps \<noteq> [] \<longrightarrow> map fst data = cs" by (simp add: data series_keys)
  have nth: "snd (data ! i) = column P i ?ps" if "i < length data" for i
    using that by (auto simp: data series_def split: if_splits)
  have len: "\<forall>i<length data.
      length (snd (data ! i)) = length (filter (\<lambda>r. float_of P (split r ! i) \<noteq> None) ?ps) \<and>
      length (snd (data ! i)) \<le> length ?ps"
    by (simp add: nth column_length)
  have all: "length (snd (data ! i)) = length ?ps"
    if c: "\<forall>r\<in>set ?ps. \<forall>t\<in>set (split r). float_of P t \<noteq> None" and i: "i < length data" for i
  proof -
    have ic: "i < length cs" using i by (auto simp: data series_def split: if_splits)
    have "\<forall>r\<in>set ?ps. float_of P (split r ! i) \<noteq> None"
    proof
      fix r assume r: "r \<in> set ?ps"
      then have "length (split r) = length cs" by (simp add: parsed_def)
      then have "split r ! i \<in> set (split r)" using ic by simp
      then show "float_of P (split r ! i) \<noteq> None" using c r by blast
    qed
    then show ?thesis by (simp add: nth[OF i] column_length_all)
  qed
  show ?thesis using e k len all by blast
qed

theorem scalar_series_column_lengths_witness:
  "read_cell_or_energy_data dec_num scalar_fs ''ok-Energy.en'' None ''energy'' = Inr
     [(''Step Nr.'', [0, 1]), (''Time[fs]'', [0, 1 / 2]), (''Kin.[a.u.]'', [1, 1]),
      (''Temp[K]'', [300, 300]), (''Pot.[a.u.]'', [- (35 / 2), - (69 / 4)]),
      (''Cons Qty[a.u.]'', [- (33 / 2), - (33 / 2)]), (''UsedTime[s]'', [1 / 2, 1 / 2])] \<and>
   length [- (35 / 2), - (69 / 4) :: rat] = length (parsed energy_columns (tl clean_energy_file))"
proof -
  let ?d = "[(''Step Nr.'', [0, 1]), (''Time[fs]'', [0, 1 / 2]), (''Kin.[a.u.]'', [1, 1]),
      (''Temp[K]'', [300, 300]), (''Pot.[a.u.]'', [- (35 / 2), - (69 / 4)]),
      (''Cons Qty[a.u.]'', [- (33 / 2), - (33 / 2)]), (''UsedTime[s]'', [1 / 2, 1 / 2 :: rat])]"
  have f: "scalar_fs ''ok-Energy.en'' = Some (hd clean_energy_file # tl clean_energy_file)"
    by (simp add: scalar_fs_def clean_energy_file_def)
  have t: "''energy'' = ''cell'' \<and> energy_columns = cell_columns \<or>
           ''energy'' = ''energy'' \<and> energy_columns = energy_columns"
    by simp
  have r: "read_cell_or_energy_data dec_num scalar_fs ''ok-Energy.en'' None ''energy'' = Inr ?d"
    by code_simp
  have a: "\<forall>r\<in>set (parsed energy_columns (tl clean_energy_file)).
             \<forall>t\<in>set (split r). float_of dec_num t \<noteq> None"
    by code_simp
  have i: "4 < length ?d" by simp
  have "length (snd (?d ! 4)) = length (parsed energy_columns (tl clean_energy_file))"
    using scalar_series_column_lengths[OF f t r] a i by blast
  then show ?thesis using r by simp
qed

text \<open>
  Claim C1 as stated fails on a file with a token that is no number: two rows are kept,
  and the column of the bad token has one value while the others have two.
\<close>

theorem scalar_series_unequal_columns:
  "read_cell_or_energy_data dec_num scalar_fs ''bad-Energy.en'' None ''energy'' = Inr
     [(''Step Nr.'', [0, 1]), (''Time[fs]'', [0, 1 / 2]), (''Kin.[a.u.]'', [1, 1]),
      (''Temp[K]'', [300, 300]), (''Pot.[a.u.]'', [- (35 / 2)]),
      (''Cons Qty[a.u.]'', [- (33 / 2), - (33 / 2)]), (''UsedTime[s]'', [1 / 2, 1 / 2])] \<and>
   parsed energy_columns (tl energy_file)
     = [''0 0.0 1 300 -17.5 -16.5 0.5'', ''1 0.5 1 300 x -16.5 0.5'']"
  by code_simp

text \<open>
  Claim C7 at a cell file with a header and one well-formed row: the row is read, and the
  diagnostic then takes \<^verbatim>\<open>data[time][1]\<close> from a list of one element, so the reader
  raises IndexError instead of returning the series.
\<close>

theorem reader_raises_on_single_row:
  "read_cell_or_energy_data dec_num scalar_fs ''one-Cell.cell'' None ''cell'' = Inl IndexError"
  by code_simp

section \<open>Properties of the frame parsers\<close>

subsection \<open>The loop of read_forces_data over a well-formed file\<close>

lemma forces_line_skip:
  "\<not> is_forces_header l \<Longrightarrow> \<not> header_found s \<Longrightarrow> forces_line P l s = Inr s"
  by (simp add: forces_line_def)

lemma forces_loop_before_header:
  "\<forall>l\<in>set pre. \<not> is_forces_header l \<Longrightarrow> \<not> header_found s \<Longrightarrow> forces_loop P pre s = Inr s"
  by (induction pre) (simp_all add: forces_line_skip)

lemma forces_loop_append:
  "forces_loop P (xs @ ys) s =
     (case forces_loop P xs s of Inl e \<Rightarrow> Inl e | Inr s' \<Rightarrow> forces_loop P ys s')"
  by (induction xs arbitrary: s) (auto split: sum.splits)

lemma forces_line_header:
  "is_forces_header h \<Longrightarrow>
   forces_line P h s = Inr (s\<lparr>header_found := True, frames := forces_flush s, current_frames := []\<rparr>)"
  by (simp add: forces_line_def forces_flush_def)

lemma forces_line_body:
  assumes "header_found s" and "\<not> is_forces_header l" and "\<not> is_data l \<or> convertible P l"
  shows "forces_line P l s =
     Inr (s\<lparr>kind_to_element := record_kinds (map (kind_of P) (data_lines [l])) (kind_to_element s),
            arrangement := arrangement s @ map (kind_of P) (data_lines [l]),
            current_frames := current_frames s @ map (atom_of P) (data_lines [l])\<rparr>)"
proof (cases "is_data l")
  case True
  then have c: "convertible P l" using assms(3) by simp
  from True have nb: "\<not> contains ''ATOMIC FORCES'' l" and len: "\<not> length (split l) < 6"
    by (auto simp: is_data_def)
  from c obtain k x y z where conv: "int_of P (split l ! 1) = Some k"
      "float_of P (split l ! 3) = Some x" "float_of P (split l ! 4) = Some y"
      "float_of P (split l ! 5) = Some z"
    by (auto simp: convertible_def)
  show ?thesis
    using assms(1,2) nb len True conv
    by (simp add: forces_line_def Let_def data_lines_def kind_of_def atom_of_def record_kinds_def)
next
  case False
  then have "contains ''ATOMIC FORCES'' l \<or> length (split l) < 6"
    by (auto simp: is_data_def)
  then show ?thesis
    using assms(1,2) False
    by (auto simp: forces_line_def Let_def data_lines_def record_kinds_def)
qed

lemma data_lines_Cons: "data_lines (l # ls) = data_lines [l] @ data_lines ls"
  by (simp add: data_lines_def)

lemma record_kinds_append: "record_kinds (xs @ ys) d = record_kinds ys (record_kinds xs d)"
  by (simp add: record_kinds_def)

lemma forces_loop_body:
  "header_found s \<Longrightarrow> body_ok P body \<Longrightarrow>
   forces_loop P body s =
     Inr (s\<lparr>kind_to_element := record_kinds (map (kind_of P) (data_lines body)) (kind_to_element s),
            arrangement := arrangement s @ map (kind_of P) (data_lines body),
            current_frames := current_frames s @ map (atom_of P) (data_lines body)\<rparr>)"
proof (induction body arbitrary: s)
  case Nil
  then show ?case by (simp add: data_lines_def record_kinds_def)
next
  case (Cons l body)
  from Cons.prems(2) have l: "\<not> is_forces_header l" "\<not> is_data l \<or> convertible P l"
    and b: "body_ok P body"
    by (auto simp: body_ok_def)
  let ?s1 = "s\<lparr>kind_to_element := record_kinds (map (kind_of P) (data_lines [l])) (kind_to_element s),
            arrangement := arrangement s @ map (kind_of P) (data_lines [l]),
            current_frames := current_frames s @ map (atom_of P) (data_lines [l])\<rparr>"
  have h1: "header_found ?s1" using Cons.prems(1) by simp
  show ?case
    using forces_line_body[OF Cons.prems(1) l, of ] Cons.IH[OF h1 b]
    by (simp add: data_lines_Cons[of l body] record_kinds_append)
qed

lemma forces_loop_block:
  assumes h: "is_forces_header h" and b: "body_ok P body"
  shows "forces_loop P (h # body) s =
     Inr (s\<lparr>header_found := True, frames := forces_flush s,
            kind_to_element := record_kinds (map (kind_of P) (data_lines body)) (kind_to_element s),
            arrangement := arrangement s @ map (kind_of P) (data_lines body),
            current_frames := map (atom_of P) (data_lines body)\<rparr>)"
proof -
  let ?s1 = "s\<lparr>header_found := True, frames := forces_flush s, current_frames := []\<rparr>"
  have h1: "header_found ?s1" by simp
  show ?thesis
    using forces_line_header[OF h, of P s] forces_loop_body[OF h1 b]
    by simp
qed

lemma forces_loop_blocks:
  assumes "0 < A"
  shows "\<forall>blk\<in>set blocks. block_ok P A blk \<Longrightarrow>
   \<exists>s'. forces_loop P (block_lines blocks) s = Inr s' \<and>
        forces_flush s' = forces_flush s @ map (frame_of P) blocks \<and>
        arrangement s' = arrangement s @ concat (map (kinds_of P) blocks) \<and>
        kind_to_element s' = record_kinds (concat (map (kinds_of P) blocks)) (kind_to_element s)"
proof (induction blocks arbitrary: s)
  case Nil
  then show ?case by (simp add: block_lines_def record_kinds_def)
next
  case (Cons blk blocks)
  from Cons.prems have ok: "block_ok P A blk" and rest: "\<forall>b\<in>set blocks. block_ok P A b"
    by auto
  from ok have h: "is_forces_header (fst blk)" and b: "body_ok P (snd blk)"
    and n: "length (data_lines (snd blk)) = A"
    by (auto simp: block_ok_def)
  let ?s1 = "s\<lparr>header_found := True, frames := forces_flush s,
            kind_to_element := record_kinds (map (kind_of P) (data_lines (snd blk))) (kind_to_element s),
            arrangement := arrangement s @ map (kind_of P) (data_lines (snd blk)),
            current_frames := map (atom_of P) (data_lines (snd blk))\<rparr>"
  have blk: "forces_loop P (fst blk # snd blk) s = Inr ?s1"
    by (rule forces_loop_block[OF h b])
  have ne: "data_lines (snd blk) \<noteq> []" using n assms by auto
  have fl: "forces_flush ?s1 = forces_flush s @ [frame_of P blk]"
    using ne by (simp add: forces_flush_def frame_of_def)
  from Cons.IH[OF rest, of ?s1] obtain s' where s':
    "forces_loop P (block_lines blocks) ?s1 = Inr s'"
    "forces_flush s' = forces_flush ?s1 @ map (frame_of P) blocks"
    "arrangement s' = arrangement ?s1 @ concat (map (kinds_of P) blocks)"
    "kind_to_element s' = record_kinds (concat (map (kinds_of P) blocks)) (kind_to_element ?s1)"
    by blast
  have lines: "block_lines (blk # blocks) = (fst blk # snd blk) @ block_lines blocks"
    by (simp add: block_lines_def)
  have "forces_loop P (block_lines (blk # blocks)) s = Inr s'"
    unfolding lines forces_loop_append using blk s'(1) by simp
  moreover have "forces_flush s' = forces_flush s @ map (frame_of P) (blk # blocks)"
    using s'(2) fl by simp
  moreover have "arrangement s' = arrangement s @ concat (map (kinds_of P) (blk # blocks))"
    using s'(3) by (simp add: kinds_of_def)
  moreover have "kind_to_element s' =
      record_kinds (concat (map (kinds_of P) (blk # blocks))) (kind_to_element s)"
    using s'(4) by (simp add: kinds_of_def record_kinds_append)
  ultimately show ?case by blast
qed

lemma fill_rows_uniform:
  "\<forall>fr\<in>set frs. length (concat fr) = n \<Longrightarrow> fill_rows n frs = Inr (map concat frs)"
  by (induction frs) (simp_all add: Let_def)

lemma length_concat_atoms:
  "\<forall>a\<in>set fr. length a = 3 \<Longrightarrow> length (concat fr) = length fr * 3"
  by (induction fr) simp_all

lemma frame_of_flat: "length (concat (frame_of P blk)) = length (data_lines (snd blk)) * 3"
proof -
  have "\<forall>a\<in>set (frame_of P blk). length a = 3" by (auto simp: frame_of_def atom_of_def)
  then show ?thesis using length_concat_atoms[of "frame_of P blk"] by (simp add: frame_of_def)
qed

lemma take_first_block:
  "blocks \<noteq> [] \<Longrightarrow> \<forall>blk\<in>set blocks. length (kinds_of P blk) = A \<Longrightarrow>
   take (length (concat (map (kinds_of P) blocks)) div length blocks) (concat (map (kinds_of P) blocks))
     = kinds_of P (hd blocks)"
proof -
  assume ne: "blocks \<noteq> []" and a: "\<forall>blk\<in>set blocks. length (kinds_of P blk) = A"
  have len: "length (concat (map (kinds_of P) blocks)) = length blocks * A"
    using a by (induction blocks) simp_all
  obtain b bs where bs: "blocks = b # bs" using ne by (cases blocks) auto
  have "length blocks * A div length blocks = A" using ne by simp
  then show ?thesis using a by (simp add: len) (simp add: bs)
qed

subsection \<open>Every parsed atom has three coordinates\<close>









lemma read_forces_data_frames:
  "fs filename = Some ls \<Longrightarrow> forces_frames P ls = Inr ff \<Longrightarrow>
   \<exists>s. forces_loop P ls forces_init = Inr s \<and> forces_flush s = ff \<and>
       read_forces_data P fs filename nsteps sp = forces_result s nsteps sp"
  by (auto simp: read_forces_data_def open_read_def forces_frames_def split: sum.splits)

lemma read_position_data_frames:
  "fs filename = Some ls \<Longrightarrow> position_frames P ls = Inr pf \<Longrightarrow>
   \<exists>s. position_loop P ls position_init = Inr s \<and> position_flush s = pf \<and>
       read_position_data P fs filename nsteps sp = position_result s nsteps sp"
  by (auto simp: read_position_data_def open_read_def position_frames_def split: sum.splits)

subsection \<open>The checks after the loop\<close>








subsection \<open>Files without a frame, and the frame count\<close>

lemma forces_no_header: "\<forall>l\<in>set ls. \<not> is_forces_header l \<Longrightarrow> forces_frames P ls = Inr []"
  using forces_loop_before_header[of ls forces_init P]
  by (simp add: forces_frames_def forces_init_def forces_flush_def)

lemma position_line_skip:
  "\<not> is_position_header l \<Longrightarrow> \<not> frame_started s \<Longrightarrow> position_line P l s = Inr s"
  by (simp add: position_line_def)

lemma position_loop_before_header:
  "\<forall>l\<in>set ls. \<not> is_position_header l \<Longrightarrow> \<not> frame_started s \<Longrightarrow> position_loop P ls s = Inr s"
  by (induction ls) (simp_all add: position_line_skip)

lemma position_no_header: "\<forall>l\<in>set ls. \<not> is_position_header l \<Longrightarrow> position_frames P ls = Inr []"
  using position_loop_before_header[of ls position_init P]
  by (simp add: position_frames_def position_init_def position_flush_def)

text \<open>
  Claim C9. When the loop of a parser ends with an empty frame list (no header line, or
  headers without a usable data line), \<^verbatim>\<open>frames[0]\<close> raises IndexError: this holds for
  read_forces_data and for read_position_data, whatever the step arguments are.
\<close>

theorem empty_frame_list_index_error:
  assumes "fs ffile = Some flines" and "forces_frames P flines = Inr []"
    and "fs pfile = Some plines" and "position_frames P plines = Inr []"
  shows "read_forces_data P fs ffile nsteps sp = Inl IndexError \<and>
         read_position_data P fs pfile nsteps' sp' = Inl IndexError"
proof -
  from read_forces_data_frames[where fs=fs and filename=ffile, OF assms(1,2)] obtain s where
    s: "forces_flush s = []" "read_forces_data P fs ffile nsteps sp = forces_result s nsteps sp"
    by blast
  from read_position_data_frames[where fs=fs and filename=pfile, OF assms(3,4)] obtain t where
    t: "position_flush t = []"
       "read_position_data P fs pfile nsteps' sp' = position_result t nsteps' sp'"
    by blast
  show ?thesis using s t by (simp add: forces_result_def position_result_def)
qed

theorem empty_frame_list_index_error_witness:
  "read_forces_data dec_num frames_fs ''none.txt'' 10 1 = Inl IndexError \<and>
   read_position_data dec_num frames_fs ''none.txt'' 10 1 = Inl IndexError"
proof -
  have f: "frames_fs ''none.txt'' = Some no_frame_file" by (simp add: frames_fs_def)
  have a: "forces_frames dec_num no_frame_file = Inr []" by code_simp
  have b: "position_frames dec_num no_frame_file = Inr []" by code_simp
  show ?thesis
    by (rule empty_frame_list_index_error[where fs=frames_fs and ffile="''none.txt''"
          and pfile="''none.txt''", OF f a f b])
qed



subsection \<open>The tensor and the orderings of a well-formed force file\<close>

lemma forces_result_blocks:
  assumes fl: "forces_flush s = map (frame_of P) blocks"
    and ar: "arrangement s = concat (map (kinds_of P) blocks)"
    and ok: "\<forall>blk\<in>set blocks. length (data_lines (snd blk)) = A"
    and ne: "blocks \<noteq> []"
    and q: "int_truediv nsteps sp = Inr q" and c: "int (length blocks) = q + 1"
  shows "forces_result s nsteps sp =
     Inr (kind_to_element s, map snd (kinds_of P (hd blocks)), map fst (kinds_of P (hd blocks)),
          \<lparr> ncols = A * 3, arows = map (\<lambda>blk. concat (frame_of P blk)) blocks \<rparr>)"
proof -
  obtain b bs where bs: "blocks = b # bs" using ne by (cases blocks) auto
  have la: "length (frame_of P b) = A" using ok by (simp add: bs frame_of_def)
  have "\<forall>fr\<in>set (map (frame_of P) blocks). length (concat fr) = A * 3"
    using ok by (auto simp: frame_of_flat)
  then have fill: "fill_rows (A * 3) (map (frame_of P) blocks) = Inr (map concat (map (frame_of P) blocks))"
    by (rule fill_rows_uniform)
  have k: "\<forall>blk\<in>set blocks. length (kinds_of P blk) = A" using ok by (simp add: kinds_of_def)
  have tk: "take (length (arrangement s) div length blocks) (arrangement s) = kinds_of P (hd blocks)"
    unfolding ar by (rule take_first_block[OF ne k])
  have fl': "forces_flush s = frame_of P b # map (frame_of P) bs" using fl by (simp add: bs)
  have len: "length (frame_of P b # map (frame_of P) bs) = length blocks" by (simp add: bs)
  have fill': "fill_rows (A * 3) (frame_of P b # map (frame_of P) bs)
                 = Inr (map (\<lambda>blk. concat (frame_of P blk)) blocks)"
    using fill by (simp add: bs comp_def del: fill_rows.simps)
  show ?thesis
    unfolding forces_result_def fl' list.case Let_def len tk la q sum.case fill'
    using c by simp
qed

lemma forces_init_flush: "forces_flush forces_init = []"
  by (simp add: forces_init_def forces_flush_def)

lemma forces_loop_blocks_init:
  assumes "0 < A" and "\<forall>blk\<in>set blocks. block_ok P A blk"
  shows "\<exists>s'. forces_loop P (block_lines blocks) forces_init = Inr s' \<and>
        forces_flush s' = map (frame_of P) blocks \<and>
        arrangement s' = concat (map (kinds_of P) blocks) \<and>
        kind_to_element s' = record_kinds (concat (map (kinds_of P) blocks)) []"
  using forces_loop_blocks[OF assms, of forces_init]
  by (simp add: forces_init_flush) (simp add: forces_init_def)

lemma read_forces_data_blocks:
  assumes fle: "fs filename = Some (pre @ block_lines blocks)"
    and pre: "\<forall>l\<in>set pre. \<not> is_forces_header l"
    and ok: "\<forall>blk\<in>set blocks. block_ok P A blk"
    and ne: "blocks \<noteq> []" and A: "0 < A"
    and q: "int_truediv nsteps sp = Inr q" and c: "int (length blocks) = q + 1"
  shows "read_forces_data P fs filename nsteps sp =
     Inr (record_kinds (concat (map (kinds_of P) blocks)) [],
          map snd (kinds_of P (hd blocks)), map fst (kinds_of P (hd blocks)),
          \<lparr> ncols = A * 3, arows = map (\<lambda>blk. concat (frame_of P blk)) blocks \<rparr>)"
proof -
  have p: "forces_loop P pre forces_init = Inr forces_init"
    by (rule forces_loop_before_header[OF pre]) (simp add: forces_init_def)
  from forces_loop_blocks_init[OF A ok] obtain s where
    s1: "forces_loop P (block_lines blocks) forces_init = Inr s" and
    fl: "forces_flush s = map (frame_of P) blocks" and
    ar: "arrangement s = concat (map (kinds_of P) blocks)" and
    ke: "kind_to_element s = record_kinds (concat (map (kinds_of P) blocks)) []"
    by (elim exE conjE)
  have loop: "forces_loop P (pre @ block_lines blocks) forces_init = Inr s"
    unfolding forces_loop_append p sum.case by (rule s1)
  have n: "\<forall>blk\<in>set blocks. length (data_lines (snd blk)) = A"
    using ok by (simp add: block_ok_def)
  have res: "forces_result s nsteps sp =
     Inr (kind_to_element s, map snd (kinds_of P (hd blocks)), map fst (kinds_of P (hd blocks)),
          \<lparr> ncols = A * 3, arows = map (\<lambda>blk. concat (frame_of P blk)) blocks \<rparr>)"
    by (rule forces_result_blocks[OF fl ar n ne q c])
  have op: "open_read fs filename = Inr (pre @ block_lines blocks)"
    by (simp add: open_read_def fle)
  show ?thesis
    unfolding read_forces_data_def op sum.case loop res ke by (rule refl)
qed

text \<open>
  Claim C5. A force file made of lines without a header followed by \<open>F \<ge> 1\<close> blocks, each
  a header line and a body with exactly \<open>A \<ge> 1\<close> data lines that convert, read with a step
  count for which the frame-count assertion holds (\<open>F = int(nsteps / STDPRINT) + 1\<close>):
  read_forces_data returns a tensor with \<open>F\<close> rows and \<open>3 * A\<close> columns, whose row \<open>i\<close> is
  the concatenation of the force triples of the data lines of block \<open>i\<close> in file order, and
  the two orderings are the elements and the kinds of the first block, each of length \<open>A\<close>.
\<close>

theorem forces_tensor_shape:
  assumes "fs filename = Some (pre @ block_lines blocks)"
    and "\<forall>l\<in>set pre. \<not> is_forces_header l"
    and "\<forall>blk\<in>set blocks. block_ok P A blk"
    and "blocks \<noteq> []" and "0 < A"
    and "int_truediv nsteps sp = Inr q" and "int (length blocks) = q + 1"
  shows "\<exists>k2e letters numbers data.
           read_forces_data P fs filename nsteps sp = Inr (k2e, letters, numbers, data) \<and>
           ncols data = 3 * A \<and> length (arows data) = length blocks \<and>
           (\<forall>i<length blocks.
              arows data ! i = concat (map (atom_of P) (data_lines (snd (blocks ! i)))) \<and>
              length (arows data ! i) = 3 * A) \<and>
           length letters = A \<and> length numbers = A \<and>
           letters = map snd (kinds_of P (hd blocks)) \<and>
           numbers = map fst (kinds_of P (hd blocks))"
proof -
  let ?data = "\<lparr> ncols = A * 3, arows = map (\<lambda>blk. concat (frame_of P blk)) blocks \<rparr>"
  have r: "read_forces_data P fs filename nsteps sp =
     Inr (record_kinds (concat (map (kinds_of P) blocks)) [],
          map snd (kinds_of P (hd blocks)), map fst (kinds_of P (hd blocks)), ?data)"
    by (rule read_forces_data_blocks[where fs=fs and filename=filename, OF assms])
  have hd: "hd blocks \<in> set blocks" using assms(4) by simp
  then have la: "length (map snd (kinds_of P (hd blocks))) = A"
      "length (map fst (kinds_of P (hd blocks))) = A"
    using assms(3) by (simp_all add: block_ok_def kinds_of_def)
  have rows: "\<forall>i<length blocks.
      arows ?data ! i = concat (map (atom_of P) (data_lines (snd (blocks ! i)))) \<and>
      length (arows ?data ! i) = 3 * A"
  proof (intro allI impI)
    fix i assume i: "i < length blocks"
    then have "blocks ! i \<in> set blocks" by simp
    then have "length (data_lines (snd (blocks ! i))) = A" using assms(3) by (simp add: block_ok_def)
    then show "arows ?data ! i = concat (map (atom_of P) (data_lines (snd (blocks ! i)))) \<and>
      length (arows ?data ! i) = 3 * A"
      using i frame_of_flat[of P "blocks ! i"] by (simp add: frame_of_def)
  qed
  have sh: "ncols ?data = 3 * A" "length (arows ?data) = length blocks" by simp_all
  show ?thesis
    apply (rule exI[where x = "record_kinds (concat (map (kinds_of P) blocks)) []"])
    apply (rule exI[where x = "map snd (kinds_of P (hd blocks))"])
    apply (rule exI[where x = "map fst (kinds_of P (hd blocks))"])
    apply (rule exI[where x = "?data"])
    apply (intro conjI)
           apply (rule r)
          apply (rule sh(1))
         apply (rule sh(2))
        apply (rule rows)
       apply (rule la(1))
      apply (rule la(2))
     apply (rule refl)
    apply (rule refl)
    done
qed

theorem forces_tensor_shape_witness:
  "read_forces_data dec_num frames_fs ''a-Forces.for'' 2 1 =
     Inr ([(1, ''H''), (2, ''O'')], [''H'', ''O''], [1, 2],
          \<lparr> ncols = 6,
            arows = [[1 / 2, 1 / 4, 0, - (1 / 2), - (1 / 4), 0],
                     [3 / 2, 5 / 4, 1, - (3 / 2), - (5 / 4), - 1],
                     [5 / 2, 9 / 4, 2, - (5 / 2), - (9 / 4), - 2]] \<rparr>) \<and>
   length [''H'', ''O''] = (2::nat) \<and> length [1, 2 :: int] = (2::nat)"
proof -
  have f: "frames_fs ''a-Forces.for'' = Some (['' ATOMIC FORCES in [a.u.]''] @ block_lines forces_blocks)"
    by (simp add: frames_fs_def forces_file_def block_lines_def forces_blocks_def)
  have pre: "\<forall>l\<in>set ['' ATOMIC FORCES in [a.u.]'']. \<not> is_forces_header l" by code_simp
  have ok: "\<forall>blk\<in>set forces_blocks. block_ok dec_num 2 blk" by code_simp
  have ne: "forces_blocks \<noteq> []" by (simp add: forces_blocks_def)
  have A: "0 < (2::nat)" by simp
  have q: "int_truediv 2 1 = Inr 2" by code_simp
  have c: "int (length forces_blocks) = 2 + 1" by (simp add: forces_blocks_def)
  from forces_tensor_shape[where fs=frames_fs and filename="''a-Forces.for''", OF f pre ok ne A q c]
  obtain k2e letters numbers data where
    r: "read_forces_data dec_num frames_fs ''a-Forces.for'' 2 1 = Inr (k2e, letters, numbers, data)"
    and l: "length letters = 2" "length numbers = 2"
    by (elim exE conjE)
  have e: "read_forces_data dec_num frames_fs ''a-Forces.for'' 2 1 =
     Inr ([(1, ''H''), (2, ''O'')], [''H'', ''O''], [1, 2],
          \<lparr> ncols = 6,
            arows = [[1 / 2, 1 / 4, 0, - (1 / 2), - (1 / 4), 0],
                     [3 / 2, 5 / 4, 1, - (3 / 2), - (5 / 4), - 1],
                     [5 / 2, 9 / 4, 2, - (5 / 2), - (9 / 4), - 2]] \<rparr>)"
    by code_simp
  from r e have "letters = [''H'', ''O'']" "numbers = [1, 2]" by simp_all
  with l e show ?thesis by simp
qed

section \<open>Properties of the converter\<close>

subsection \<open>Concatenation of the groups\<close>

lemma np_concatenate_uniform:
  assumes "arrays \<noteq> []" and "\<forall>b\<in>set arrays. ncols b = c"
  shows "np_concatenate arrays = Inr \<lparr> ncols = c, arows = concat (map arows arrays) \<rparr>"
proof -
  obtain a rest where ar: "arrays = a # rest" using assms(1) by (cases arrays) auto
  show ?thesis using assms(2) by (simp add: np_concatenate_def ar list_all_iff)
qed

lemma np_concatenate_rows:
  "np_concatenate arrays = Inr r \<Longrightarrow> arows r = concat (map arows arrays) \<and> arrays \<noteq> []"
  by (auto simp: np_concatenate_def split: list.splits if_splits)

lemma np_concatenate1_rows:
  "np_concatenate1 arrays = Inr r \<Longrightarrow> r = concat arrays \<and> arrays \<noteq> []"
  by (auto simp: np_concatenate1_def split: list.splits)

lemma length_concat_drop1:
  "length (concat (map (\<lambda>a. drop 1 (arows a)) fl)) = (\<Sum>a\<leftarrow>fl. length (arows a) - 1)"
  by (induction fl) simp_all

text \<open>
  Claim C2. For \<open>N \<ge> 1\<close> groups whose arrays agree in their numbers of columns, the
  concatenation of lines 76-79 returns; box, energy and coordinates are the groups' arrays
  laid end to end in list order, the force array is the groups' force arrays without their
  first rows laid end to end, so its number of rows is the sum of \<open>k - 1\<close> over the groups'
  raw frame counts \<open>k\<close> (11 and 6 raw frames give 15 rows).
\<close>

theorem concatenation_drops_first_force_row:
  assumes "gs \<noteq> []"
    and "\<forall>g\<in>set gs. ncols (g_cell g) = cc \<and> ncols (g_coord g) = cx \<and> ncols (g_force g) = cf"
  shows "\<exists>d. concatenate_groups (map g_cell gs) (map g_energy gs) (map g_coord gs) (map g_force gs)
               = Inr d \<and>
             arows (cell_data d) = concat (map (\<lambda>g. arows (g_cell g)) gs) \<and>
             energy_data d = concat (map g_energy gs) \<and>
             arows (coord_data d) = concat (map (\<lambda>g. arows (g_coord g)) gs) \<and>
             arows (force_data d) = concat (map (\<lambda>g. drop 1 (arows (g_force g))) gs) \<and>
             length (arows (force_data d)) = (\<Sum>g\<leftarrow>gs. length (arows (g_force g)) - 1)"
proof -
  have c1: "np_concatenate (map g_cell gs)
      = Inr \<lparr> ncols = cc, arows = concat (map arows (map g_cell gs)) \<rparr>"
    by (rule np_concatenate_uniform) (use assms in simp_all)
  have c2: "np_concatenate1 (map g_energy gs) = Inr (concat (map g_energy gs))"
    using assms(1) by (cases gs) (simp_all add: np_concatenate1_def)
  have c3: "np_concatenate (map g_coord gs)
      = Inr \<lparr> ncols = cx, arows = concat (map arows (map g_coord gs)) \<rparr>"
    by (rule np_concatenate_uniform) (use assms in simp_all)
  have c4: "np_concatenate (map drop_first_row (map g_force gs))
      = Inr \<lparr> ncols = cf,
              arows = concat (map arows (map drop_first_row (map g_force gs))) \<rparr>"
    by (rule np_concatenate_uniform) (use assms in \<open>simp_all add: drop_first_row_def\<close>)
  have l: "length (concat (map (\<lambda>g. drop 1 (arows (g_force g))) gs))
      = (\<Sum>g\<leftarrow>gs. length (arows (g_force g)) - 1)"
    using length_concat_drop1[of "map g_force gs"] by (simp add: comp_def)
  show ?thesis
    unfolding concatenate_groups_def c1 c2 c3 c4 sum.case
    using l by (simp add: comp_def drop_first_row_def)
qed

theorem concatenation_drops_first_force_row_witness:
  "\<exists>d. concatenate_groups (map g_cell [example_group 10, example_group 5])
          (map g_energy [example_group 10, example_group 5])
          (map g_coord [example_group 10, example_group 5])
          (map g_force [example_group 10, example_group 5]) = Inr d \<and>
       length (arows (force_data d)) = 15 \<and> length (arows (g_force (example_group 10))) = 11 \<and>
       length (arows (g_force (example_group 5))) = 6"
proof -
  let ?gs = "[example_group 10, example_group 5]"
  have ne: "?gs \<noteq> []" by simp
  have u: "\<forall>g\<in>set ?gs. ncols (g_cell g) = 9 \<and> ncols (g_coord g) = 6 \<and> ncols (g_force g) = 6"
    by (simp add: example_group_def zero_array_def)
  have s: "(\<Sum>g\<leftarrow>?gs. length (arows (g_force g)) - 1) = 15"
    by (simp add: example_group_def zero_array_def)
  have k: "length (arows (g_force (example_group 10))) = 11"
      "length (arows (g_force (example_group 5))) = 6"
    by (simp_all add: example_group_def zero_array_def)
  from concatenation_drops_first_force_row[OF ne u] obtain d where
    d: "concatenate_groups (map g_cell ?gs) (map g_energy ?gs) (map g_coord ?gs) (map g_force ?gs) = Inr d"
    and l: "length (arows (force_data d)) = (\<Sum>g\<leftarrow>?gs. length (arows (g_force g)) - 1)"
    by (elim exE conjE)
  show ?thesis
    apply (rule exI[where x = d])
    using d l s k by simp
qed

subsection \<open>Chunked writing with more subsets than rows\<close>

lemma py_slice_zero: "py_slice 0 0 xs = []"
  by (simp add: py_slice_def slice_bound_def)

lemma set_update_subset: "x \<in> set (AList.update k v al) \<Longrightarrow> x = (k, v) \<or> x \<in> set al"
  by (induction al) (auto split: if_splits)

lemma map_of_update_present:
  "map_of al p \<noteq> None \<Longrightarrow> map_of (AList.update k v al) p \<noteq> None"
  by (simp add: update_conv')

lemma empty_store_np_save:
  "empty_store out \<Longrightarrow> content_rows c = 0 \<Longrightarrow> empty_store (np_save p c out)"
  by (auto simp: empty_store_def np_save_def list_all_iff dest: set_update_subset)

lemma save_set_zero_empty:
  "empty_store out \<Longrightarrow> empty_store (save_set f32 dir 0 d i out)"
  by (simp add: save_set_def Let_def py_slice_zero slice_rows_def map_array_def
        empty_store_np_save content_rows_def)

lemma fold_save_set_zero_empty:
  "empty_store out \<Longrightarrow> empty_store (fold (save_set f32 dir 0 d) is out)"
  by (induction "is" arbitrary: out) (simp_all add: save_set_zero_empty)

lemma save_set_present:
  "p \<in> set (set_paths dir i) \<Longrightarrow> map_of (save_set f32 dir n d i out) p \<noteq> None"
  by (auto simp: set_paths_def save_set_def Let_def np_save_def update_conv')

lemma save_set_keeps:
  "map_of out p \<noteq> None \<Longrightarrow> map_of (save_set f32 dir n d i out) p \<noteq> None"
  by (simp add: save_set_def Let_def np_save_def update_conv')

lemma fold_save_set_keeps:
  "map_of out p \<noteq> None \<Longrightarrow> map_of (fold (save_set f32 dir n d) is out) p \<noteq> None"
proof (induction "is" arbitrary: out)
  case Nil
  then show ?case by simp
next
  case (Cons j js)
  have "map_of (save_set f32 dir n d j out) p \<noteq> None"
    by (rule save_set_keeps[OF Cons.prems])
  from Cons.IH[OF this] show ?case by simp
qed

lemma fold_save_set_present:
  "i \<in> set is \<Longrightarrow> p \<in> set (set_paths dir i) \<Longrightarrow>
   map_of (fold (save_set f32 dir n d) is out) p \<noteq> None"
proof (induction "is" arbitrary: out)
  case Nil
  then show ?case by simp
next
  case (Cons j js)
  show ?case
  proof (cases "i = j")
    case True
    then show ?thesis
      using save_set_present[OF Cons.prems(2), of f32 n d out] fold_save_set_keeps by simp
  next
    case False
    then show ?thesis using Cons by simp
  qed
qed

lemma empty_store_lookup:
  "empty_store out \<Longrightarrow> map_of out p = Some c \<Longrightarrow> content_rows c = 0"
proof -
  assume e: "empty_store out" and m: "map_of out p = Some c"
  from m have "(p, c) \<in> set out" by (rule map_of_SomeD)
  with e have "content_rows (snd (p, c)) = 0" unfolding empty_store_def list_all_iff by blast
  then show ?thesis by simp
qed

text \<open>
  Claim C8. When the subset count exceeds the number of rows, the chunked writing returns,
  the rows per subset are \<open>rows div count = 0\<close>, the four files of every subset
  \<open>i < count\<close> are written, and every array file written has zero rows.
\<close>

theorem oversized_split_count_gives_empty_sets:
  assumes "int (length (arows (cell_data d))) < count"
  shows "\<exists>out. save_sets f32 dir True count d [] = Inr out \<and>
           int (length (arows (cell_data d))) div count = 0 \<and>
           (\<forall>i<nat count. \<forall>p\<in>set (set_paths dir i).
              \<exists>c. map_of out p = Some c \<and> content_rows c = 0) \<and>
           empty_store out"
proof -
  have n: "int (length (arows (cell_data d))) div count = 0"
    using assms by simp
  have c: "count \<noteq> 0" using assms by auto
  let ?out = "fold (save_set f32 dir 0 d) [0..<nat count] []"
  have r: "save_sets f32 dir True count d [] = Inr ?out"
    by (simp add: save_sets_def c n Let_def)
  have e: "empty_store ?out"
    by (rule fold_save_set_zero_empty) (simp add: empty_store_def)
  have p: "\<exists>c. map_of ?out p = Some c \<and> content_rows c = 0"
    if "i < nat count" "p \<in> set (set_paths dir i)" for i p
  proof -
    have "i \<in> set [0..<nat count]" using that(1) by simp
    from fold_save_set_present[OF this that(2), of f32 0 d "[]"]
    obtain c where "map_of ?out p = Some c" by auto
    then show ?thesis using empty_store_lookup[OF e] by blast
  qed
  show ?thesis using r n e p by blast
qed

theorem oversized_split_count_gives_empty_sets_witness:
  "save_sets id ''out'' True 5 small_dataset [] = Inr
     (fold (save_set id ''out'' 0 small_dataset) [0..<5] []) \<and>
   map_of (fold (save_set id ''out'' 0 small_dataset) [0..<5] []) ''out/set.004/force.npy''
     = Some (Npy \<lparr> ncols = 6, arows = [] \<rparr>)"
proof -
  have a: "int (length (arows (cell_data small_dataset))) < 5"
    by (simp add: small_dataset_def zero_array_def)
  from oversized_split_count_gives_empty_sets[OF a, of id "''out''"] obtain out where
    o: "save_sets id ''out'' True 5 small_dataset [] = Inr out" by blast
  have e: "save_sets id ''out'' True 5 small_dataset [] = Inr
     (fold (save_set id ''out'' 0 small_dataset) [0..<5] [])"
    by code_simp
  have m: "map_of (fold (save_set id ''out'' 0 small_dataset) [0..<5] []) ''out/set.004/force.npy''
     = Some (Npy \<lparr> ncols = 6, arows = [] \<rparr>)"
    by code_simp
  show ?thesis using o e m by simp
qed

subsection \<open>The zero-based-offset flag\<close>

lemma read_scalar_cong:
  "fs' filename = fs filename \<Longrightarrow>
   read_cell_or_energy_data P fs' filename columns ty = read_cell_or_energy_data P fs filename columns ty"
  by (simp add: read_cell_or_energy_data_def open_read_def)

lemma load_group_zero_data_fails:
  "ZERO_DATA A \<Longrightarrow> \<exists>e. load_group P fs A file n = Inl e"
  by (simp add: load_group_def split: sum.splits)

lemma load_group_zero_data_type_error:
  assumes "ZERO_DATA A"
    and "read_cell_or_energy_data P fs (file @ ''-Cell.cell'') None ''cell'' = Inr cd"
    and "pd_DataFrame cd = Inr c"
    and "read_cell_or_energy_data P fs (file @ ''-Energy.en'') None ''energy'' = Inr ed"
    and "pd_DataFrame ed = Inr en"
  shows "load_group P fs A file n = Inl TypeError"
  using assms by (simp add: load_group_def)

lemma load_group_zero_data_cong:
  assumes "ZERO_DATA A"
    and "fs' (file @ ''-Cell.cell'') = fs (file @ ''-Cell.cell'')"
    and "fs' (file @ ''-Energy.en'') = fs (file @ ''-Energy.en'')"
  shows "load_group P fs' A file n = load_group P fs A file n"
proof -
  have c: "read_cell_or_energy_data P fs' (file @ ''-Cell.cell'') None ''cell''
         = read_cell_or_energy_data P fs (file @ ''-Cell.cell'') None ''cell''"
    using assms(2) by (simp add: read_cell_or_energy_data_def open_read_def)
  have e: "read_cell_or_energy_data P fs' (file @ ''-Energy.en'') None ''energy''
         = read_cell_or_energy_data P fs (file @ ''-Energy.en'') None ''energy''"
    using assms(3) by (simp add: read_cell_or_energy_data_def open_read_def)
  show ?thesis
    using assms(1) by (simp add: load_group_def c e split: sum.splits)
qed

lemma main_zero_data:
  assumes "ZERO_DATA A" and "FILES A \<noteq> []" and "length (FILES A) = length (NSTEPS A)"
  shows "main P f32 fs A =
     (case load_group P fs A (hd (main_files A)) (hd (NSTEPS A)) of Inl e \<Rightarrow> Inl e | Inr g \<Rightarrow> Inl TypeError)"
proof -
  obtain f fr where f: "main_files A = f # fr"
    using assms(2) by (cases "main_files A") (auto simp: main_files_def split: option.splits)
  obtain n nr where n: "NSTEPS A = n # nr" using assms(2,3) by (cases "NSTEPS A") auto
  from load_group_zero_data_fails[OF assms(1), of P fs f n]
  obtain e where e: "load_group P fs A f n = Inl e" by blast
  have "load_groups P fs A (zip (main_files A) (NSTEPS A)) = Inl e"
    by (simp add: f n e)
  then show ?thesis
    using assms(3) e by (simp add: main_def main_files_def[symmetric] f n)
qed

text \<open>
  Claim C10. With \<open>ZERO_DATA\<close> set, at least one group and as many step counts as files,
  main never returns normally; when the cell and energy files of the first group are read
  and framed without error, the exception is the TypeError of line 62; and the outcome is
  the same for every file system that agrees on these two files, so no position or force
  file is looked at.
\<close>

theorem zero_data_raises_type_error:
  assumes "ZERO_DATA A" and "FILES A \<noteq> []" and "length (FILES A) = length (NSTEPS A)"
  shows "(\<exists>e. main P f32 fs A = Inl e) \<and>
         (\<forall>cd c ed en.
            read_cell_or_energy_data P fs (hd (main_files A) @ ''-Cell.cell'') None ''cell'' = Inr cd \<and>
            pd_DataFrame cd = Inr c \<and>
            read_cell_or_energy_data P fs (hd (main_files A) @ ''-Energy.en'') None ''energy'' = Inr ed \<and>
            pd_DataFrame ed = Inr en
            \<longrightarrow> main P f32 fs A = Inl TypeError) \<and>
         (\<forall>fs'. fs' (hd (main_files A) @ ''-Cell.cell'') = fs (hd (main_files A) @ ''-Cell.cell'') \<and>
                fs' (hd (main_files A) @ ''-Energy.en'') = fs (hd (main_files A) @ ''-Energy.en'')
            \<longrightarrow> main P f32 fs' A = main P f32 fs A)"
proof -
  let ?f = "hd (main_files A)" and ?n = "hd (NSTEPS A)"
  note m = main_zero_data[OF assms]
  from load_group_zero_data_fails[OF assms(1), of P fs ?f ?n]
  obtain e where e: "load_group P fs A ?f ?n = Inl e" by blast
  have 1: "\<exists>e. main P f32 fs A = Inl e" by (simp add: m e)
  have 2: "main P f32 fs A = Inl TypeError"
    if "read_cell_or_energy_data P fs (?f @ ''-Cell.cell'') None ''cell'' = Inr cd"
       "pd_DataFrame cd = Inr c"
       "read_cell_or_energy_data P fs (?f @ ''-Energy.en'') None ''energy'' = Inr ed"
       "pd_DataFrame ed = Inr en" for cd c ed en
    using load_group_zero_data_type_error[OF assms(1) that, of ?n] by (simp add: m)
  have 3: "main P f32 fs' A = main P f32 fs A"
    if "fs' (?f @ ''-Cell.cell'') = fs (?f @ ''-Cell.cell'')"
       "fs' (?f @ ''-Energy.en'') = fs (?f @ ''-Energy.en'')" for fs'
    using load_group_zero_data_cong[OF assms(1) that, of P ?n] by (simp add: m)
  show ?thesis using 1 2 3 by blast
qed

theorem zero_data_raises_type_error_witness:
  "main dec_num id run_fs (run_args\<lparr>ZERO_DATA := True\<rparr>) = Inl TypeError"
proof -
  let ?A = "run_args\<lparr>ZERO_DATA := True\<rparr>"
  let ?cd = "[(''Step'', [0, 1]), (''Time [fs]'', [0, 1 / 2]), (''Ax [Angstrom]'', [10, 10]),
      (''Ay [Angstrom]'', [0, 0]), (''Az [Angstrom]'', [0, 0]), (''Bx [Angstrom]'', [0, 0]),
      (''By [Angstrom]'', [10, 10]), (''Bz [Angstrom]'', [0, 0]), (''Cx [Angstrom]'', [0, 0]),
      (''Cy [Angstrom]'', [0, 0]), (''Cz [Angstrom]'', [10, 10]),
      (''Volume [Angstrom^3]'', [1000, 1000 :: rat])]"
  let ?ed = "[(''Step Nr.'', [0, 1]), (''Time[fs]'', [0, 1 / 2]), (''Kin.[a.u.]'', [1, 1]),
      (''Temp[K]'', [300, 300]), (''Pot.[a.u.]'', [- (35 / 2), - (69 / 4)]),
      (''Cons Qty[a.u.]'', [- (33 / 2), - (33 / 2)]), (''UsedTime[s]'', [1 / 2, 1 / 2 :: rat])]"
  have z: "ZERO_DATA ?A" by simp
  have f: "FILES ?A \<noteq> []" by (simp add: run_args_def)
  have l: "length (FILES ?A) = length (NSTEPS ?A)" by (simp add: run_args_def)
  have h: "hd (main_files ?A) = ''run''" by (simp add: main_files_def run_args_def)
  have c: "read_cell_or_energy_data dec_num run_fs (hd (main_files ?A) @ ''-Cell.cell'') None ''cell''
             = Inr ?cd"
    unfolding h by code_simp
  have e: "read_cell_or_energy_data dec_num run_fs (hd (main_files ?A) @ ''-Energy.en'') None ''energy''
             = Inr ?ed"
    unfolding h by code_simp
  have dc: "pd_DataFrame ?cd = Inr ?cd" by (simp add: pd_DataFrame_def)
  have de: "pd_DataFrame ?ed = Inr ?ed" by (simp add: pd_DataFrame_def)
  show ?thesis
    using zero_data_raises_type_error[OF z f l, of dec_num id run_fs] c dc e de by blast
qed

subsection \<open>The two text files\<close>

lemma split_acc_no_space:
  "\<forall>c\<in>set cur. \<not> is_space c \<Longrightarrow> t \<in> set (split_acc cur s) \<Longrightarrow> \<forall>c\<in>set t. \<not> is_space c"
proof (induction s arbitrary: cur)
  case Nil
  then show ?case by (auto split: if_splits)
next
  case (Cons a s)
  show ?case
  proof (cases "is_space a")
    case True
    then have "t = cur \<or> t \<in> set (split_acc [] s)"
      using Cons.prems(2) by (auto split: if_splits)
    then show ?thesis using Cons.prems(1) Cons.IH[of "[]"] by auto
  next
    case False
    then have "t \<in> set (split_acc (cur @ [a]) s)" using Cons.prems(2) by simp
    moreover have "\<forall>c\<in>set (cur @ [a]). \<not> is_space c" using Cons.prems(1) False by simp
    ultimately show ?thesis using Cons.IH[of "cur @ [a]"] by blast
  qed
qed

lemma split_no_newline: "t \<in> set (split s) \<Longrightarrow> CHR 0x0A \<notin> set t"
proof -
  assume "t \<in> set (split s)"
  then have "\<forall>c\<in>set t. \<not> is_space c"
    using split_acc_no_space[of "[]" t s] by (simp add: split_def)
  moreover have "is_space (CHR 0x0A)" by (simp add: is_space_def)
  ultimately show ?thesis by blast
qed

lemma no_newline_update:
  "no_newline d \<Longrightarrow> CHR 0x0A \<notin> set e \<Longrightarrow> no_newline (AList.update k e d)"
  unfolding no_newline_def list_all_iff using set_update_subset[of _ k e d] by fastforce

lemma forces_line_no_newline:
  assumes "forces_line P l s = Inr s'" and "no_newline (kind_to_element s)"
  shows "no_newline (kind_to_element s')"
proof (cases "is_forces_header l \<or> \<not> header_found s \<or> contains ''ATOMIC FORCES'' l \<or> length (split l) < 6")
  case True
  then show ?thesis using assms by (auto simp: forces_line_def Let_def split: if_splits)
next
  case False
  then have "split l ! 2 \<in> set (split l)" by simp
  then have nl: "CHR 0x0A \<notin> set (split l ! 2)" by (rule split_no_newline)
  from False assms(1) obtain k where "kind_to_element s' = AList.update k (split l ! 2) (kind_to_element s)"
    by (auto simp: forces_line_def Let_def split: option.splits)
  then show ?thesis using no_newline_update[OF assms(2) nl] by simp
qed

lemma forces_loop_no_newline:
  "forces_loop P ls s = Inr s' \<Longrightarrow> no_newline (kind_to_element s) \<Longrightarrow> no_newline (kind_to_element s')"
proof (induction ls arbitrary: s)
  case Nil
  then show ?case by simp
next
  case (Cons l ls)
  from Cons.prems(1) obtain s1 where s1: "forces_line P l s = Inr s1"
    and r: "forces_loop P ls s1 = Inr s'"
    by (auto split: sum.splits)
  from Cons.IH[OF r forces_line_no_newline[OF s1 Cons.prems(2)]] show ?case .
qed

lemma forces_result_map: "forces_result s n sp = Inr (k, l, on, a) \<Longrightarrow> k = kind_to_element s"
  by (auto simp: forces_result_def Let_def split: list.splits sum.splits if_splits)

lemma read_forces_data_no_newline:
  assumes "read_forces_data P fs filename n sp = Inr (k, l, on, a)"
  shows "no_newline k"
proof -
  from assms obtain ls s where s: "forces_loop P ls forces_init = Inr s"
    and r: "forces_result s n sp = Inr (k, l, on, a)"
    by (auto simp: read_forces_data_def split: sum.splits)
  have "no_newline (kind_to_element (forces_init :: 'a forces_state))"
    by (simp add: forces_init_def no_newline_def)
  from forces_loop_no_newline[OF s this] forces_result_map[OF r] show ?thesis by simp
qed

lemma load_group_forces:
  assumes "load_group P fs A file n = Inr g"
  shows "read_forces_data P fs (file @ ''-Forces.for'') n (STDPRINT A)
           = Inr (g_kind_to_element g, g_ordering_letter g, g_ordering_number g, g_force g)"
  using assms
  by (auto simp: load_group_def split: sum.splits if_splits prod.splits)

lemma load_groups_nth:
  "load_groups P fs A fns = Inr gs \<Longrightarrow>
   length gs = length fns \<and>
   (\<forall>i<length fns. load_group P fs A (fst (fns ! i)) (snd (fns ! i)) = Inr (gs ! i))"
proof (induction fns arbitrary: gs)
  case Nil
  then show ?case by simp
next
  case (Cons fn fns)
  obtain f n where fn: "fn = (f, n)" by (cases fn)
  from Cons.prems obtain g gr where g: "load_group P fs A f n = Inr g"
    and gr: "load_groups P fs A fns = Inr gr" and gs: "gs = g # gr"
    by (auto simp: fn split: sum.splits)
  from Cons.IH[OF gr] have l: "length gr = length fns"
    and a: "\<forall>i<length fns. load_group P fs A (fst (fns ! i)) (snd (fns ! i)) = Inr (gr ! i)"
    by simp_all
  have "load_group P fs A (fst ((fn # fns) ! i)) (snd ((fn # fns) ! i)) = Inr (gs ! i)"
    if "i < length (fn # fns)" for i
    using that g a by (cases i) (simp_all add: fn gs)
  then show ?case using l by (simp add: gs)
qed

lemma load_groups_last:
  assumes "load_groups P fs A fns = Inr gs" and "fns \<noteq> []"
  shows "gs \<noteq> [] \<and> load_group P fs A (fst (last fns)) (snd (last fns)) = Inr (last gs)"
proof -
  from load_groups_nth[OF assms(1)] have l: "length gs = length fns"
    and a: "\<forall>i<length fns. load_group P fs A (fst (fns ! i)) (snd (fns ! i)) = Inr (gs ! i)"
    by simp_all
  have ne: "gs \<noteq> []" using l assms(2) by auto
  have "length fns - 1 < length fns" using assms(2) by simp
  with a have "load_group P fs A (fst (fns ! (length fns - 1))) (snd (fns ! (length fns - 1)))
      = Inr (gs ! (length fns - 1))" by blast
  then show ?thesis using ne assms(2) l by (simp add: last_conv_nth)
qed

lemma lines_acc_item:
  "CHR 0x0A \<notin> set item \<Longrightarrow> lines_acc cur (item @ CHR 0x0A # rest) = (cur @ item) # lines_acc [] rest"
proof (induction item arbitrary: cur)
  case Nil
  then show ?case by simp
next
  case (Cons a item)
  from Cons.prems have a: "a \<noteq> CHR 0x0A" and i: "CHR 0x0A \<notin> set item" by auto
  have "lines_acc cur ((a # item) @ CHR 0x0A # rest) = lines_acc (cur @ [a]) (item @ CHR 0x0A # rest)"
    using a by simp
  also have "\<dots> = ((cur @ [a]) @ item) # lines_acc [] rest" by (rule Cons.IH[OF i])
  finally show ?case by simp
qed

lemma lines_acc_items:
  "\<forall>i\<in>set items. CHR 0x0A \<notin> set (f i) \<Longrightarrow>
   lines_acc [] (concat (map (\<lambda>i. f i @ [CHR 0x0A]) items)) = map f items"
proof (induction items)
  case Nil
  then show ?case by simp
next
  case (Cons i items)
  then have n: "CHR 0x0A \<notin> set (f i)" and r: "\<forall>i\<in>set items. CHR 0x0A \<notin> set (f i)" by simp_all
  show ?case using lines_acc_item[OF n, of "[]"] Cons.IH[OF r] by simp
qed

lemma digit_char_no_newline: "d < 10 \<Longrightarrow> digit_char d \<noteq> CHR 0x0A"
proof
  assume d: "d < 10" and e: "digit_char d = CHR 0x0A"
  then have "of_char (char_of (48 + d) :: char) = (of_char (CHR 0x0A) :: nat)"
    by (simp add: digit_char_def)
  then show False using d by simp
qed

lemma str_nat_no_newline: "CHR 0x0A \<notin> set (str_nat n)"
proof (induction n rule: str_nat.induct)
  case (1 n)
  show ?case
  proof (cases "n < 10")
    case True
    then show ?thesis using digit_char_no_newline[of n] by (subst str_nat.simps) auto
  next
    case False
    have "n mod 10 < 10" by simp
    then have "digit_char (n mod 10) \<noteq> CHR 0x0A" by (rule digit_char_no_newline)
    then show ?thesis using False 1 by (subst str_nat.simps) auto
  qed
qed

lemma str_int_no_newline: "CHR 0x0A \<notin> set (str_int i)"
  by (simp add: str_int_def str_nat_no_newline)

lemma text_lines_type_raw: "text_lines (type_raw numbers) = map (\<lambda>k. str_int (k - 1)) numbers"
  unfolding text_lines_def type_raw_def
  by (rule lines_acc_items) (simp add: str_int_no_newline)

lemma text_lines_type_map_raw:
  assumes "no_newline k2e"
  shows "text_lines (type_map_raw k2e) = map snd k2e"
proof -
  have "\<forall>i\<in>set (map snd k2e). CHR 0x0A \<notin> set i"
    using assms by (auto simp: no_newline_def list_all_iff)
  then have "lines_acc [] (concat (map (\<lambda>i. i @ [CHR 0x0A]) (map snd k2e))) = map (\<lambda>i. i) (map snd k2e)"
    by (rule lines_acc_items[where f = "\<lambda>i. i"])
  then show ?thesis by (simp add: text_lines_def type_map_raw_def)
qed

lemma concatenate_groups_nonempty:
  "concatenate_groups (map g_cell gs) (map g_energy gs) (map g_coord gs) (map g_force gs) = Inr d
   \<Longrightarrow> gs \<noteq> []"
  by (auto simp: concatenate_groups_def np_concatenate_def)

lemma write_files_returns:
  assumes "write_files f32 A k2e numbers d = Inr out"
  shows "\<exists>dir out0. main_dir A = Some dir \<and>
           out = np_save (dir @ ''/type.raw'') (Text (type_raw numbers))
                   (np_save (dir @ ''/type_map.raw'') (Text (type_map_raw k2e)) out0)"
proof (cases "main_dir A")
  case None
  then show ?thesis using assms by (simp add: write_files_def main_dir_def)
next
  case (Some dir)
  show ?thesis
  proof (cases "save_sets f32 dir (SPLIT A) (SPLIT_COUNT A) d []")
    case (Inl e)
    then show ?thesis using assms Some by (simp add: write_files_def main_dir_def)
  next
    case (Inr out0)
    then have "out = np_save (dir @ ''/type.raw'') (Text (type_raw numbers))
                   (np_save (dir @ ''/type_map.raw'') (Text (type_map_raw k2e)) out0)"
      using assms Some by (auto simp: write_files_def main_dir_def)
    then show ?thesis using Some by blast
  qed
qed

lemma main_returns:
  assumes "main P f32 fs A = Inr out"
  shows "\<exists>gs dir out0. main_groups P fs A = Inr gs \<and> gs \<noteq> [] \<and> main_dir A = Some dir \<and>
           length (FILES A) = length (NSTEPS A) \<and>
           out = np_save (dir @ ''/type.raw'') (Text (type_raw (g_ordering_number (last gs))))
                   (np_save (dir @ ''/type_map.raw'')
                      (Text (type_map_raw (g_kind_to_element (last gs)))) out0)"
proof -
  from assms have len: "length (FILES A) = length (NSTEPS A)"
    by (simp add: main_def split: if_splits)
  show ?thesis
  proof (cases "main_groups P fs A")
    case (Inl e)
    then show ?thesis
      using assms len by (simp add: main_def main_groups_def main_files_def)
  next
    case (Inr gs)
    note gs = Inr
    show ?thesis
    proof (cases "concatenate_groups (map g_cell gs) (map g_energy gs) (map g_coord gs) (map g_force gs)")
      case (Inl e)
      then show ?thesis
        using assms len gs by (simp add: main_def main_groups_def main_files_def)
    next
      case (Inr d)
      have ne: "gs \<noteq> []" by (rule concatenate_groups_nonempty[OF Inr])
      have w: "write_files f32 A (g_kind_to_element (last gs)) (g_ordering_number (last gs)) d = Inr out"
        using assms len gs Inr
        by (simp add: main_def main_groups_def main_files_def split: sum.splits)
      from write_files_returns[OF w] show ?thesis using gs ne len by blast
    qed
  qed
qed

text \<open>
  Claim C6. When main returns, \<open>type_map.raw\<close> in the destination holds, one per line, the
  element symbols of the kind-to-element map that read_forces_data returned for the last
  group, in the order of the map (the order of first insertion); \<open>type.raw\<close> holds, one per
  line, the decimal form of \<open>k - 1\<close> for every kind index \<open>k\<close> of the ordering that
  read_forces_data returned. For kinds 1 = H and 2 = O the lines are H, O and 0, 1.
\<close>

theorem type_files_written:
  assumes "main P f32 fs A = Inr out"
  shows "\<exists>gs dir. main_groups P fs A = Inr gs \<and> gs \<noteq> [] \<and> main_dir A = Some dir \<and>
           read_forces_data P fs (last (main_files A) @ ''-Forces.for'') (last (NSTEPS A)) (STDPRINT A)
             = Inr (g_kind_to_element (last gs), g_ordering_letter (last gs),
                    g_ordering_number (last gs), g_force (last gs)) \<and>
           (\<exists>t. map_of out (dir @ ''/type_map.raw'') = Some (Text t) \<and>
                text_lines t = map snd (g_kind_to_element (last gs))) \<and>
           (\<exists>t. map_of out (dir @ ''/type.raw'') = Some (Text t) \<and>
                text_lines t = map (\<lambda>k. str_int (k - 1)) (g_ordering_number (last gs)))"
proof -
  from main_returns[OF assms] obtain gs dir out0 where
    gs: "main_groups P fs A = Inr gs" and ne: "gs \<noteq> []" and dir: "main_dir A = Some dir"
    and len: "length (FILES A) = length (NSTEPS A)"
    and out: "out = np_save (dir @ ''/type.raw'') (Text (type_raw (g_ordering_number (last gs))))
                   (np_save (dir @ ''/type_map.raw'')
                      (Text (type_map_raw (g_kind_to_element (last gs)))) out0)"
    by blast
  let ?fns = "zip (main_files A) (NSTEPS A)"
  have lg: "load_groups P fs A ?fns = Inr gs" using gs by (simp add: main_groups_def)
  have lf: "length (main_files A) = length (NSTEPS A)"
    using len by (simp add: main_files_def split: option.splits)
  from load_groups_nth[OF lg] have "length gs = length ?fns" by simp
  then have fne: "?fns \<noteq> []" using ne by auto
  then have mne: "main_files A \<noteq> []" and nne: "NSTEPS A \<noteq> []" by auto
  have lz: "last ?fns = (last (main_files A), last (NSTEPS A))"
    by (rule last_zip[OF mne nne lf])
  from load_groups_last[OF lg fne]
  have "load_group P fs A (last (main_files A)) (last (NSTEPS A)) = Inr (last gs)"
    by (simp add: lz)
  then have rf: "read_forces_data P fs (last (main_files A) @ ''-Forces.for'') (last (NSTEPS A)) (STDPRINT A)
             = Inr (g_kind_to_element (last gs), g_ordering_letter (last gs),
                    g_ordering_number (last gs), g_force (last gs))"
    by (rule load_group_forces)
  have nn: "no_newline (g_kind_to_element (last gs))"
    by (rule read_forces_data_no_newline[OF rf])
  have m1: "map_of out (dir @ ''/type_map.raw'') = Some (Text (type_map_raw (g_kind_to_element (last gs))))"
    by (simp add: out np_save_def update_conv')
  have m2: "map_of out (dir @ ''/type.raw'') = Some (Text (type_raw (g_ordering_number (last gs))))"
    by (simp add: out np_save_def update_conv')
  show ?thesis
    using gs ne dir rf m1 m2 text_lines_type_map_raw[OF nn]
      text_lines_type_raw[of "g_ordering_number (last gs)"]
    by blast
qed

theorem type_files_written_witness:
  "\<exists>out t1 t2. main dec_num id run_fs run_args = Inr out \<and>
     map_of out ''out/type_map.raw'' = Some (Text t1) \<and> text_lines t1 = [''H'', ''O''] \<and>
     map_of out ''out/type.raw'' = Some (Text t2) \<and> text_lines t2 = [''0'', ''1'']"
proof -
  let ?out = "[(''out/set.000/box.npy'',
       Npy \<lparr>ncols = 9, arows = [[10, 0, 0, 0, 10, 0, 0, 0, 10], [10, 0, 0, 0, 10, 0, 0, 0, 10]]\<rparr>),
      (''out/set.000/energy.npy'', Npy1 [- (33 / 2), - (33 / 2)]),
      (''out/set.000/coord.npy'',
       Npy \<lparr>ncols = 6, arows = [[0, 0, 0, 0, 0, 1], [0, 0, 1 / 2, 0, 0, 3 / 2]]\<rparr>),
      (''out/set.000/force.npy'',
       Npy \<lparr>ncols = 6,
              arows = [[3 / 2, 5 / 4, 1, - (3 / 2), - (5 / 4), - 1],
                       [5 / 2, 9 / 4, 2, - (5 / 2), - (9 / 4), - 2]]\<rparr>),
      (''out/type_map.raw'', Text [CHR ''H'', CHR 0x0A, CHR ''O'', CHR 0x0A]),
      (''out/type.raw'', Text [CHR ''0'', CHR 0x0A, CHR ''1'', CHR 0x0A :: char])]
      :: (string \<times> rat content) list"
  have ev: "main dec_num id run_fs run_args = Inr ?out"
    by code_simp
  from type_files_written[OF ev] obtain gs dir t1 t2 where
    gs: "main_groups dec_num run_fs run_args = Inr gs" "gs \<noteq> []"
    and dir: "main_dir run_args = Some dir"
    and rf: "read_forces_data dec_num run_fs (last (main_files run_args) @ ''-Forces.for'')
               (last (NSTEPS run_args)) (STDPRINT run_args)
             = Inr (g_kind_to_element (last gs), g_ordering_letter (last gs),
                    g_ordering_number (last gs), g_force (last gs))"
    and t1: "map_of ?out (dir @ ''/type_map.raw'') = Some (Text t1)"
            "text_lines t1 = map snd (g_kind_to_element (last gs))"
    and t2: "map_of ?out (dir @ ''/type.raw'') = Some (Text t2)"
            "text_lines t2 = map (\<lambda>k. str_int (k - 1)) (g_ordering_number (last gs))"
    by (elim exE conjE)
  have d: "dir = ''out''" using dir by (simp add: main_dir_def run_args_def)
  have rf': "read_forces_data dec_num run_fs (last (main_files run_args) @ ''-Forces.for'')
               (last (NSTEPS run_args)) (STDPRINT run_args)
             = Inr ([(1, ''H''), (2, ''O'')], [''H'', ''O''], [1, 2],
          \<lparr> ncols = 6,
            arows = [[1 / 2, 1 / 4, 0, - (1 / 2), - (1 / 4), 0],
                     [3 / 2, 5 / 4, 1, - (3 / 2), - (5 / 4), - 1],
                     [5 / 2, 9 / 4, 2, - (5 / 2), - (9 / 4), - 2]] \<rparr>)"
    by code_simp
  from rf rf' have k: "g_kind_to_element (last gs) = [(1, ''H''), (2, ''O'')]"
    and n: "g_ordering_number (last gs) = [1, 2]" by simp_all
  have l1: "text_lines t1 = [''H'', ''O'']" using t1(2) by (simp add: k)
  have s: "map (\<lambda>k. str_int (k - 1)) [1, 2] = [''0'', ''1'']" by code_simp
  have l2: "text_lines t2 = [''0'', ''1'']" using t2(2) by (simp only: n s)
  have p1: "map_of ?out ''out/type_map.raw'' = Some (Text t1)" using t1(1) by (simp add: d)
  have p2: "map_of ?out ''out/type.raw'' = Some (Text t2)" using t2(1) by (simp add: d)
  show ?thesis using ev l1 l2 p1 p2 by blast
qed

section \<open>Properties of the splitter\<close>

subsection \<open>The number of training rows\<close>

lemma float_round_int:
  assumes "0 \<le> n" and "n < 2 ^ 53"
  shows "float_round (of_int n) = Inr (of_int n)"
proof (cases "n = 0")
  case True
  then show ?thesis by (simp add: float_round_def)
next
  case False
  then have p: "(0::rat) < of_int n" using assms(1) by simp
  have "(of_int n :: rat) < of_int (2 ^ 53)" using assms(2) by (simp only: of_int_less_iff)
  then have b: "(of_int n :: rat) < 2 ^ 53" by simp
  have h: "n \<le> 2 ^ 53" using assms(2) by simp
  from float_round_bracket[OF p b order_refl order_refl h] show ?thesis by auto
qed

lemma float_mul_int_bounds:
  assumes "0 < x" and "x \<le> 1" and "n < 2 ^ 53"
  shows "\<exists>p. float_mul_int x (int n) = Inr p \<and> 0 \<le> p \<and> p \<le> of_nat n"
proof (cases "n = 0")
  case True
  then show ?thesis by (simp add: float_mul_int_def float_round_def)
next
  case False
  have n53: "int n < 2 ^ 53" using assms(3) by (metis of_nat_less_iff of_nat_numeral of_nat_power)
  have fi: "float_round (of_int (int n)) = Inr (of_int (int n))"
    by (rule float_round_int[OF _ n53]) simp
  let ?y = "x * of_int (int n) :: rat"
  have y0: "0 < ?y" using assms(1) False by simp
  have "x * of_nat n \<le> 1 * (of_nat n :: rat)" using assms(2) by (intro mult_right_mono) simp_all
  then have yn: "?y \<le> of_int (int n)" by simp
  have "(of_int (int n) :: rat) < of_int (2 ^ 53)" using n53 by (simp only: of_int_less_iff)
  then have y53: "?y < 2 ^ 53" using yn by simp
  have lo: "of_int 0 \<le> ?y" using y0 by simp
  have h: "int n \<le> 2 ^ 53" using n53 by simp
  from float_round_bracket[OF y0 y53 lo yn h] obtain p where
    "float_round ?y = Inr p \<and> 0 \<le> p \<and> p \<le> of_int (int n)" by auto
  moreover have "float_round (of_nat n) = Inr (of_nat n :: rat)" using fi by simp
  ultimately show ?thesis by (simp add: float_mul_int_def)
qed

lemma ntrain_of_bounds:
  assumes "0 < x" and "x \<le> 1" and "n < 2 ^ 53"
  shows "\<exists>p. float_mul_int x (int n) = Inr p \<and> ntrain_of x n = Inr \<lfloor>p\<rfloor> \<and>
             0 \<le> \<lfloor>p\<rfloor> \<and> \<lfloor>p\<rfloor> \<le> int n"
proof -
  from float_mul_int_bounds[OF assms] obtain p where
    p: "float_mul_int x (int n) = Inr p" and p0: "0 \<le> p" and pn: "p \<le> of_nat n" by blast
  have "\<lfloor>p\<rfloor> \<le> int n" using pn by (simp add: floor_le_iff)
  moreover have "0 \<le> \<lfloor>p\<rfloor>" using p0 by simp
  moreover have "ntrain_of x n = Inr \<lfloor>p\<rfloor>" using p p0 by (simp add: ntrain_of_def py_int_def)
  ultimately show ?thesis using p by blast
qed

lemma float_mul_int_round:
  assumes "n < 2 ^ 53"
  shows "float_mul_int x (int n) = float_round (x * of_nat n)"
proof -
  have n53: "int n < 2 ^ 53" using assms by (metis of_nat_less_iff of_nat_numeral of_nat_power)
  have "float_round (of_int (int n)) = Inr (of_int (int n))"
    by (rule float_round_int[OF _ n53]) simp
  then have "float_round (of_nat n) = Inr (of_nat n :: rat)" by simp
  then show ?thesis by (simp add: float_mul_int_def)
qed

lemma slice_to_take: "0 \<le> k \<Longrightarrow> k \<le> int (length xs) \<Longrightarrow> slice_to k xs = take (nat k) xs"
  by (simp add: slice_to_def slice_bound_def)

lemma slice_from_drop: "0 \<le> k \<Longrightarrow> k \<le> int (length xs) \<Longrightarrow> slice_from k xs = drop (nat k) xs"
  by (simp add: slice_from_def slice_bound_def)

lemma take_idx_returns:
  assumes "set idx = {..<length xs}"
  shows "take_idx xs idx = Inr (map (\<lambda>i. xs ! i) idx)"
proof -
  have "list_all (\<lambda>i. i < length xs) idx" using assms by (auto simp: list_all_iff)
  then show ?thesis by (simp add: take_idx_def)
qed

lemma take_rows_returns:
  assumes "set idx = {..<length (arows a)}"
  shows "take_rows a idx = Inr (a\<lparr>arows := map (\<lambda>i. arows a ! i) idx\<rparr>)"
  by (simp add: take_rows_def take_idx_returns[OF assms])

lemma shuffle_arrays_returns:
  assumes "length (arows (cell_data d)) = N" and "length (energy_data d) = N"
    and "length (arows (coord_data d)) = N" and "length (arows (force_data d)) = N"
    and "sh \<longrightarrow> length idx = N \<and> set idx = {..<N}"
  shows "\<exists>d'. shuffle_arrays sh idx d = Inr d' \<and> (\<not> sh \<longrightarrow> d' = d) \<and>
              length (arows (cell_data d')) = N \<and> length (energy_data d') = N \<and>
              length (arows (coord_data d')) = N \<and> length (arows (force_data d')) = N \<and>
              ncols (coord_data d') = ncols (coord_data d) \<and>
              ncols (force_data d') = ncols (force_data d)"
proof (cases sh)
  case False
  then show ?thesis using assms by (simp add: shuffle_arrays_def)
next
  case True
  then have l: "length idx = N" and s: "set idx = {..<N}" using assms(5) by simp_all
  have a: "take_rows (cell_data d) idx = Inr ((cell_data d)\<lparr>arows := map (\<lambda>i. arows (cell_data d) ! i) idx\<rparr>)"
    by (rule take_rows_returns) (simp add: s assms(1))
  have b: "take_idx (energy_data d) idx = Inr (map (\<lambda>i. energy_data d ! i) idx)"
    by (rule take_idx_returns) (simp add: s assms(2))
  have c: "take_rows (coord_data d) idx = Inr ((coord_data d)\<lparr>arows := map (\<lambda>i. arows (coord_data d) ! i) idx\<rparr>)"
    by (rule take_rows_returns) (simp add: s assms(3))
  have e: "take_rows (force_data d) idx = Inr ((force_data d)\<lparr>arows := map (\<lambda>i. arows (force_data d) ! i) idx\<rparr>)"
    by (rule take_rows_returns) (simp add: s assms(4))
  show ?thesis using True l by (simp add: shuffle_arrays_def a b c e)
qed

lemma split_data_slices:
  assumes "shuffle_arrays sh idx d = Inr d'"
    and "ntrain_of f (length (arows (cell_data d'))) = Inr k"
    and "0 \<le> k" and "k \<le> int N"
    and "length (arows (cell_data d')) = N" and "length (energy_data d') = N"
    and "length (arows (coord_data d')) = N" and "length (arows (force_data d')) = N"
    and "ncols (coord_data d') = ncols (force_data d')"
  shows "split_data f sh idx d = Inr (head_rows (nat k) d', tail_rows (nat k) d')"
proof -
  have c: "consistency_check d' = Inr ()" using assms(5-9) by (simp add: consistency_check_def)
  have t: "\<And>xs. length xs = N \<Longrightarrow> slice_to k xs = take (nat k) xs"
    using assms(3,4) by (simp add: slice_to_take)
  have u: "\<And>xs. length xs = N \<Longrightarrow> slice_from k xs = drop (nat k) xs"
    using assms(3,4) by (simp add: slice_from_drop)
  show ?thesis
    unfolding split_data_def head_rows_def tail_rows_def
    by (simp add: assms(1,2) c t[OF assms(5)] t[OF assms(6)] t[OF assms(7)] t[OF assms(8)]
        u[OF assms(5)] u[OF assms(6)] u[OF assms(7)] u[OF assms(8)])
qed

subsection \<open>The two groups\<close>

text \<open>
  Claim C3, as amended. For a loaded dataset whose four arrays have \<open>N\<close> rows each
  (\<open>N < 2\<^sup>5\<^sup>3\<close>, coordinates and forces of equal width) and a fraction \<open>0 < f \<le> 1\<close>, the
  splitter returns a train and a test group; each of the four train arrays has \<open>\<lfloor>p\<rfloor>\<close> rows
  and each of the four test arrays the remaining \<open>N - \<lfloor>p\<rfloor>\<close>, where \<open>p\<close> is the double nearest
  to \<open>f * N\<close> (the product as line 65 computes it) and \<open>0 \<le> \<lfloor>p\<rfloor> \<le> N\<close>; with shuffling
  disabled the train group is the rows before \<open>\<lfloor>p\<rfloor>\<close> and the test group the rows from
  \<open>\<lfloor>p\<rfloor>\<close> on of each loaded array. With shuffling enabled \<open>idx\<close> is the permutation of the
  row numbers that numpy draws.
\<close>

theorem split_partition:
  fixes d :: "'f dataset"
  assumes "0 < f" and "f \<le> 1" and "N < 2 ^ 53"
    and "length (arows (cell_data d)) = N" and "length (energy_data d) = N"
    and "length (arows (coord_data d)) = N" and "length (arows (force_data d)) = N"
    and "ncols (coord_data d) = ncols (force_data d)"
    and "sh \<longrightarrow> length idx = N \<and> set idx = {..<N}"
  shows "\<exists>p tr te. float_round (f * of_nat N) = Inr p \<and> 0 \<le> \<lfloor>p\<rfloor> \<and> \<lfloor>p\<rfloor> \<le> int N \<and>
           split_data f sh idx d = Inr (tr, te) \<and>
           group_rows tr = replicate 4 (nat \<lfloor>p\<rfloor>) \<and>
           group_rows te = replicate 4 (N - nat \<lfloor>p\<rfloor>) \<and>
           (\<not> sh \<longrightarrow> tr = head_rows (nat \<lfloor>p\<rfloor>) d \<and> te = tail_rows (nat \<lfloor>p\<rfloor>) d)"
proof -
  from shuffle_arrays_returns[OF assms(4-7) assms(9)] obtain d' where
    s: "shuffle_arrays sh idx d = Inr d'" and same: "\<not> sh \<longrightarrow> d' = d"
    and l1: "length (arows (cell_data d')) = N" and l2: "length (energy_data d') = N"
    and l3: "length (arows (coord_data d')) = N" and l4: "length (arows (force_data d')) = N"
    and c1: "ncols (coord_data d') = ncols (coord_data d)"
    and c2: "ncols (force_data d') = ncols (force_data d)"
    by (elim exE conjE)
  from ntrain_of_bounds[OF assms(1-3)] obtain p where
    p: "float_mul_int f (int N) = Inr p" and k: "ntrain_of f N = Inr \<lfloor>p\<rfloor>"
    and k0: "0 \<le> \<lfloor>p\<rfloor>" and kN: "\<lfloor>p\<rfloor> \<le> int N"
    by (elim exE conjE)
  have r: "float_round (f * of_nat N) = Inr p"
    using p float_mul_int_round[OF assms(3), of f] by simp
  have cols: "ncols (coord_data d') = ncols (force_data d')" using c1 c2 assms(8) by simp
  have k': "ntrain_of f (length (arows (cell_data d'))) = Inr \<lfloor>p\<rfloor>" using k l1 by simp
  have sp: "split_data f sh idx d = Inr (head_rows (nat \<lfloor>p\<rfloor>) d', tail_rows (nat \<lfloor>p\<rfloor>) d')"
    by (rule split_data_slices[OF s k' k0 kN l1 l2 l3 l4 cols])
  have le: "nat \<lfloor>p\<rfloor> \<le> N" using kN k0 by simp
  have h: "group_rows (head_rows (nat \<lfloor>p\<rfloor>) d') = replicate 4 (nat \<lfloor>p\<rfloor>)"
    using le by (simp add: group_rows_def head_rows_def l1 l2 l3 l4 numeral_eq_Suc min_absorb2)
  have t: "group_rows (tail_rows (nat \<lfloor>p\<rfloor>) d') = replicate 4 (N - nat \<lfloor>p\<rfloor>)"
    by (simp add: group_rows_def tail_rows_def l1 l2 l3 l4 numeral_eq_Suc)
  have e: "\<not> sh \<longrightarrow> head_rows (nat \<lfloor>p\<rfloor>) d' = head_rows (nat \<lfloor>p\<rfloor>) d \<and>
                    tail_rows (nat \<lfloor>p\<rfloor>) d' = tail_rows (nat \<lfloor>p\<rfloor>) d"
    using same by simp
  show ?thesis using r k0 kN sp h t e by blast
qed

theorem split_partition_witness:
  "float_round (double_07 * of_nat 10) = Inr 7 \<and>
   split_data double_07 False [] (ramp_dataset 10)
     = Inr (head_rows 7 (ramp_dataset 10), tail_rows 7 (ramp_dataset 10)) \<and>
   group_rows (head_rows 7 (ramp_dataset 10)) = replicate 4 7 \<and>
   group_rows (tail_rows 7 (ramp_dataset 10)) = replicate 4 3 \<and>
   split_rows (split_data double_07 True [9, 8, 7, 6, 5, 4, 3, 2, 1, 0] (ramp_dataset 10))
     = Inr (replicate 4 7, replicate 4 3)"
proof -
  have f0: "0 < double_07" by (simp add: double_07_def)
  have f1: "double_07 \<le> 1" by (simp add: double_07_def)
  have n: "(10::nat) < 2 ^ 53" by simp
  have l1: "length (arows (cell_data (ramp_dataset 10))) = 10"
    by (simp add: ramp_dataset_def ramp_array_def)
  have l2: "length (energy_data (ramp_dataset 10)) = 10"
    by (simp add: ramp_dataset_def)
  have l3: "length (arows (coord_data (ramp_dataset 10))) = 10"
    by (simp add: ramp_dataset_def ramp_array_def)
  have l4: "length (arows (force_data (ramp_dataset 10))) = 10"
    by (simp add: ramp_dataset_def ramp_array_def)
  have c: "ncols (coord_data (ramp_dataset 10)) = ncols (force_data (ramp_dataset 10))"
    by (simp add: ramp_dataset_def ramp_array_def)
  have s: "False \<longrightarrow> length ([]::nat list) = 10 \<and> set ([]::nat list) = {..<10}" by simp
  have r: "float_round (double_07 * of_nat 10) = Inr 7"
    by code_simp
  from split_partition[where f=double_07 and N=10 and d="ramp_dataset 10" and sh=False
      and idx="[]", OF f0 f1 n l1 l2 l3 l4 c s]
  obtain p tr te where
    p: "float_round (double_07 * of_nat 10) = Inr p"
    and "0 \<le> \<lfloor>p\<rfloor>" and "\<lfloor>p\<rfloor> \<le> int 10"
    and sp: "split_data double_07 False [] (ramp_dataset 10) = Inr (tr, te)"
    and gtr: "group_rows tr = replicate 4 (nat \<lfloor>p\<rfloor>)"
    and gte: "group_rows te = replicate 4 (10 - nat \<lfloor>p\<rfloor>)"
    and e: "\<not> False \<longrightarrow> tr = head_rows (nat \<lfloor>p\<rfloor>) (ramp_dataset 10) \<and>
                         te = tail_rows (nat \<lfloor>p\<rfloor>) (ramp_dataset 10)"
    by (elim exE conjE)
  have p7: "p = 7" using p r by simp
  have k: "nat \<lfloor>p\<rfloor> = 7" unfolding p7 by simp
  have tr: "tr = head_rows 7 (ramp_dataset 10)" and te: "te = tail_rows 7 (ramp_dataset 10)"
    using e k by simp_all
  have unshuffled: "split_data double_07 False [] (ramp_dataset 10)
       = Inr (head_rows 7 (ramp_dataset 10), tail_rows 7 (ramp_dataset 10)) \<and>
     group_rows (head_rows 7 (ramp_dataset 10)) = replicate 4 7 \<and>
     group_rows (tail_rows 7 (ramp_dataset 10)) = replicate 4 3"
    using sp gtr gte unfolding tr te k by simp
  have "set [9, 8, 7, 6, 5, 4, 3, 2, 1, 0::nat] = {..<10}"
    by (auto simp: less_Suc_eq numeral_eq_Suc)
  then have s': "True \<longrightarrow> length [9, 8, 7, 6, 5, 4, 3, 2, 1, 0::nat] = 10 \<and>
                         set [9, 8, 7, 6, 5, 4, 3, 2, 1, 0::nat] = {..<10}"
    by simp
  from split_partition[where f=double_07 and N=10 and d="ramp_dataset 10" and sh=True
      and idx="[9, 8, 7, 6, 5, 4, 3, 2, 1, 0]", OF f0 f1 n l1 l2 l3 l4 c s']
  obtain p' tr' te' where
    p': "float_round (double_07 * of_nat 10) = Inr p'"
    and "0 \<le> \<lfloor>p'\<rfloor>" and "\<lfloor>p'\<rfloor> \<le> int 10"
    and sp': "split_data double_07 True [9, 8, 7, 6, 5, 4, 3, 2, 1, 0] (ramp_dataset 10)
                = Inr (tr', te')"
    and gtr': "group_rows tr' = replicate 4 (nat \<lfloor>p'\<rfloor>)"
    and gte': "group_rows te' = replicate 4 (10 - nat \<lfloor>p'\<rfloor>)"
    and "\<not> True \<longrightarrow> tr' = head_rows (nat \<lfloor>p'\<rfloor>) (ramp_dataset 10) \<and>
                        te' = tail_rows (nat \<lfloor>p'\<rfloor>) (ramp_dataset 10)"
    by (elim exE conjE)
  have "p' = 7" using p' r by simp
  then have k': "nat \<lfloor>p'\<rfloor> = 7" by simp
  have shuffled: "split_rows (split_data double_07 True [9, 8, 7, 6, 5, 4, 3, 2, 1, 0]
       (ramp_dataset 10)) = Inr (replicate 4 7, replicate 4 3)"
    unfolding sp' using gtr' gte' k' by (simp add: split_rows_def)
  show ?thesis using r unshuffled shuffled by blast
qed

text \<open>
  Claim C3 as stated, with the exact product in \<open>\<lfloor>f * N\<rfloor>\<close>, fails where the rounding of
  the product crosses an integer. For \<^verbatim>\<open>TRAIN_SIZE = 0.7\<close> and 10 rows the train group has 7
  rows, while the double read from \<^verbatim>\<open>0.7\<close> is below 7/10 and its exact product with 10 has
  floor 6. For \<^verbatim>\<open>TRAIN_SIZE = 0.29\<close> and 100 rows the train group has 28 rows, while
  \<open>\<lfloor>0.29 * 100\<rfloor> = 29\<close>.
\<close>

theorem split_train_rows_not_exact_floor:
  "float_round (7 / 10) = Inr double_07 \<and>
   split_rows (split_data double_07 False [] (ramp_dataset 10))
     = Inr ([7, 7, 7, 7], [3, 3, 3, 3]) \<and>
   \<lfloor>double_07 * 10\<rfloor> = 6 \<and>
   float_round (29 / 100) = Inr double_029 \<and>
   split_rows (split_data double_029 False [] (ramp_dataset 100))
     = Inr ([28, 28, 28, 28], [72, 72, 72, 72]) \<and>
   \<lfloor>(29 / 100) * 100 :: rat\<rfloor> = 29"
  by code_simp

end
